theory Spec2Isabelle
  imports Main "HOL-Library.Multiset"
begin

section \<open>Data model of JanggiGame.py\<close>

text \<open>
  A piece object of the source has four fields: \<open>_owner\<close> (the strings "red" and "blue"),
  \<open>_location\<close> (a (row, column) tuple, or None once the piece is captured),
  \<open>_type\<close> (the piece-type string) and its Python class, which selects the
  \<open>get_legal_moves\<close> method. \<open>_name\<close> is only used for printing and is left out.
\<close>

datatype player = Red | Blue

datatype ptype = TGeneral | TGuard | THorse | TElephant | TChariot | TCannon | TSoldier

datatype pclass =
    BlueGeneral | RedGeneral | BlueGuard | RedGuard | Horse | Elephant | Chariot | Cannon
  | RedSoldier | BlueSoldier

type_synonym pos = "int \<times> int"

record piece =
  owner :: player
  location :: "pos option"
  ptype :: ptype
  pclass :: pclass

text \<open>
  Piece objects are shared between the board and the two piece lists and are mutated in place,
  so the model keeps them in a store (\<open>heap\<close>) and refers to them by index (\<open>pid\<close>): the
  index is the object's identity, which is what \<open>in\<close> and \<open>list.remove\<close> compare, since the
  piece classes define no \<open>__eq__\<close>. A board cell holds \<open>None\<close> for the empty string of the
  source and \<open>Some q\<close> for a reference to piece \<open>q\<close>.
\<close>

type_synonym pid = nat
type_synonym board = "pid option list list"
type_synonym heap = "piece list"

datatype gstate = UNFINISHED | RED_WON | BLUE_WON

record game =
  board :: board
  heap :: heap
  blue_pieces :: "pid list"
  red_pieces :: "pid list"
  game_state :: gstate
  current_turn :: player

datatype error = KeyError | ValueError | IndexError | AttributeError | TypeError | RecursionError

text \<open>
  A method that only reads the game returns a value or raises: \<open>Inr v\<close> or \<open>Inl e\<close>. A
  method that changes the game leaves a state behind in both cases: \<open>Inr (v, s')\<close> is the value
  \<open>v\<close> returned and \<open>Inl (e, s')\<close> the exception \<open>e\<close> raised, each with the state \<open>s'\<close> of
  the game object at that moment.
\<close>

text \<open>The other player.\<close>

fun other :: "player \<Rightarrow> player" where
  "other Blue = Red"
| "other Red = Blue"

subsection \<open>Board geometry\<close>

text \<open>\<open>current_spot in {(row, column) for row in range(10) for column in range(9)}\<close>\<close>

definition on_board :: "pos \<Rightarrow> bool" where
  "on_board p \<longleftrightarrow> 0 \<le> fst p \<and> fst p < 10 \<and> 0 \<le> snd p \<and> snd p < 9"

text \<open>\<open>{(row, column) for row in range(3) for column in range(3, 6)}\<close> and the same with
  \<open>range(7, 10)\<close>.\<close>

definition in_red_fortress :: "pos \<Rightarrow> bool" where
  "in_red_fortress p \<longleftrightarrow> 0 \<le> fst p \<and> fst p < 3 \<and> 3 \<le> snd p \<and> snd p < 6"

definition in_blue_fortress :: "pos \<Rightarrow> bool" where
  "in_blue_fortress p \<longleftrightarrow> 7 \<le> fst p \<and> fst p < 10 \<and> 3 \<le> snd p \<and> snd p < 6"

definition red_diagonal_spots :: "pos set" where
  "red_diagonal_spots = {(0, 3), (0, 5), (2, 3), (2, 5), (1, 4)}"

definition blue_diagonal_spots :: "pos set" where
  "blue_diagonal_spots = {(7, 3), (7, 5), (9, 3), (9, 5), (8, 4)}"

text \<open>\<open>board[row][column]\<close> for a spot already known to be on the board.\<close>

definition at :: "board \<Rightarrow> pos \<Rightarrow> pid option" where
  "at b p = b ! nat (fst p) ! nat (snd p)"

section \<open>Legal moves of each piece class\<close>

text \<open>
  Every \<open>get_legal_moves\<close> is called by the game with the board and the set of opposition
  positions only; the remaining parameters (\<open>count\<close>, \<open>current_spot\<close>, \<open>direction\<close>) are
  the recursion's own and start at their defaults. The model has one function for each value
  of \<open>count\<close> that the recursion reaches; \<open>loc\<close> is \<open>self.get_location()\<close>.
\<close>

subsection \<open>Generals and guards\<close>

text \<open>The call with \<open>count == 1\<close>: the spot must be in the fortress and not hold a friendly
  piece.\<close>

definition fortress_spot :: "(pos \<Rightarrow> bool) \<Rightarrow> board \<Rightarrow> pos set \<Rightarrow> pos \<Rightarrow> pos set" where
  "fortress_spot fortress b opp cur =
     (if \<not> fortress cur then {}
      else if at b cur \<noteq> None \<and> cur \<notin> opp then {}
      else {cur})"

text \<open>The call with \<open>count == 0\<close> at the piece's own location.\<close>

definition fortress_moves ::
  "(pos \<Rightarrow> bool) \<Rightarrow> pos set \<Rightarrow> board \<Rightarrow> pos set \<Rightarrow> pos \<Rightarrow> pos set" where
  "fortress_moves fortress spots b opp loc =
     (let row = fst loc; column = snd loc in
      if \<not> fortress loc then {}
      else
        (if loc \<in> spots then
           fortress_spot fortress b opp (row + 1, column + 1) \<union>
           fortress_spot fortress b opp (row + 1, column - 1) \<union>
           fortress_spot fortress b opp (row - 1, column + 1) \<union>
           fortress_spot fortress b opp (row - 1, column - 1)
         else {}) \<union>
        (fortress_spot fortress b opp (row + 1, column) \<union>
         fortress_spot fortress b opp (row - 1, column) \<union>
         fortress_spot fortress b opp (row, column + 1) \<union>
         fortress_spot fortress b opp (row, column - 1)))"

definition BlueGeneral_legal_moves :: "board \<Rightarrow> pos set \<Rightarrow> pos \<Rightarrow> pos set" where
  "BlueGeneral_legal_moves = fortress_moves in_blue_fortress blue_diagonal_spots"

definition RedGeneral_legal_moves :: "board \<Rightarrow> pos set \<Rightarrow> pos \<Rightarrow> pos set" where
  "RedGeneral_legal_moves = fortress_moves in_red_fortress red_diagonal_spots"

definition BlueGuard_legal_moves :: "board \<Rightarrow> pos set \<Rightarrow> pos \<Rightarrow> pos set" where
  "BlueGuard_legal_moves = fortress_moves in_blue_fortress blue_diagonal_spots"

definition RedGuard_legal_moves :: "board \<Rightarrow> pos set \<Rightarrow> pos \<Rightarrow> pos set" where
  "RedGuard_legal_moves = fortress_moves in_red_fortress red_diagonal_spots"

subsection \<open>Horse\<close>

text \<open>\<open>count == 2\<close>: the final spot.\<close>

definition horse_final :: "board \<Rightarrow> pos set \<Rightarrow> pos \<Rightarrow> pos set" where
  "horse_final b opp cur =
     (if \<not> on_board cur then {}
      else if at b cur \<noteq> None \<and> cur \<notin> opp then {}
      else {cur})"

text \<open>\<open>count == 1\<close>: the spot one orthogonal step away, which must be empty; the diagonal
  continuations are chosen by comparing it with the horse's own row and column.\<close>

definition horse_initial :: "board \<Rightarrow> pos set \<Rightarrow> pos \<Rightarrow> pos \<Rightarrow> pos set" where
  "horse_initial b opp loc cur =
     (let row = fst cur; column = snd cur in
      if \<not> on_board cur then {}
      else if at b cur \<noteq> None then {}
      else if row > fst loc then
        horse_final b opp (row + 1, column + 1) \<union> horse_final b opp (row + 1, column - 1)
      else if row < fst loc then
        horse_final b opp (row - 1, column + 1) \<union> horse_final b opp (row - 1, column - 1)
      else if column > snd loc then
        horse_final b opp (row + 1, column + 1) \<union> horse_final b opp (row - 1, column + 1)
      else
        horse_final b opp (row + 1, column - 1) \<union> horse_final b opp (row - 1, column - 1))"

definition Horse_legal_moves :: "board \<Rightarrow> pos set \<Rightarrow> pos \<Rightarrow> pos set" where
  "Horse_legal_moves b opp loc =
     (let row = fst loc; column = snd loc in
      if \<not> on_board loc then {}
      else
        horse_initial b opp loc (row + 1, column) \<union>
        horse_initial b opp loc (row - 1, column) \<union>
        horse_initial b opp loc (row, column + 1) \<union>
        horse_initial b opp loc (row, column - 1))"

subsection \<open>Elephant\<close>

text \<open>The eight direction strings of the source: the first sign is the row step, the second
  the column step, \<open>=\<close> is no step.\<close>

datatype direction = PP | PM | MP | MM | PE | ME | EP | EM

fun step :: "direction \<Rightarrow> pos \<Rightarrow> pos" where
  "step PP (row, column) = (row + 1, column + 1)"
| "step PM (row, column) = (row + 1, column - 1)"
| "step MP (row, column) = (row - 1, column + 1)"
| "step MM (row, column) = (row - 1, column - 1)"
| "step PE (row, column) = (row + 1, column)"
| "step ME (row, column) = (row - 1, column)"
| "step EP (row, column) = (row, column + 1)"
| "step EM (row, column) = (row, column - 1)"

text \<open>\<open>count == 3\<close>: the final spot.\<close>

definition elephant_final :: "board \<Rightarrow> pos set \<Rightarrow> pos \<Rightarrow> pos set" where
  "elephant_final b opp cur =
     (if \<not> on_board cur then {}
      else if at b cur \<noteq> None \<and> cur \<notin> opp then {}
      else {cur})"

text \<open>\<open>count == 2\<close>: the first diagonal spot, which must be empty; the second diagonal step
  continues in the \<open>direction\<close> handed down.\<close>

definition elephant_mid :: "board \<Rightarrow> pos set \<Rightarrow> pos \<Rightarrow> direction \<Rightarrow> pos set" where
  "elephant_mid b opp cur d =
     (let row = fst cur; column = snd cur in
      if \<not> on_board cur then {}
      else if at b cur \<noteq> None then {}
      else if d = PP then elephant_final b opp (row + 1, column + 1)
      else if d = PM then elephant_final b opp (row + 1, column - 1)
      else if d = MP then elephant_final b opp (row - 1, column + 1)
      else elephant_final b opp (row - 1, column - 1))"

text \<open>\<open>count == 1\<close>: the orthogonal spot, which must be empty.\<close>

definition elephant_initial :: "board \<Rightarrow> pos set \<Rightarrow> pos \<Rightarrow> pos \<Rightarrow> pos set" where
  "elephant_initial b opp loc cur =
     (let row = fst cur; column = snd cur in
      if \<not> on_board cur then {}
      else if at b cur \<noteq> None then {}
      else if row > fst loc then
        elephant_mid b opp (row + 1, column + 1) PP \<union> elephant_mid b opp (row + 1, column - 1) PM
      else if row < fst loc then
        elephant_mid b opp (row - 1, column + 1) MP \<union> elephant_mid b opp (row - 1, column - 1) MM
      else if column > snd loc then
        elephant_mid b opp (row + 1, column + 1) PP \<union> elephant_mid b opp (row - 1, column + 1) MP
      else
        elephant_mid b opp (row + 1, column - 1) PM \<union> elephant_mid b opp (row - 1, column - 1) MM)"

definition Elephant_legal_moves :: "board \<Rightarrow> pos set \<Rightarrow> pos \<Rightarrow> pos set" where
  "Elephant_legal_moves b opp loc =
     (let row = fst loc; column = snd loc in
      if \<not> on_board loc then {}
      else
        elephant_initial b opp loc (row + 1, column) \<union>
        elephant_initial b opp loc (row - 1, column) \<union>
        elephant_initial b opp loc (row, column + 1) \<union>
        elephant_initial b opp loc (row, column - 1))"

subsection \<open>Soldiers\<close>

text \<open>\<open>count == 1\<close>: the spot one step away.\<close>

definition soldier_spot :: "board \<Rightarrow> pos set \<Rightarrow> pos \<Rightarrow> pos set" where
  "soldier_spot b opp cur =
     (if \<not> on_board cur then {}
      else if at b cur \<noteq> None \<and> cur \<notin> opp then {}
      else {cur})"

text \<open>The three \<open>if\<close> statements on the soldier's location run one after the other, each
  overwriting \<open>moves\<close>; the diagonal spots are put into \<open>moves\<close> as they are, without the
  call that checks the spot.\<close>

definition RedSoldier_legal_moves :: "board \<Rightarrow> pos set \<Rightarrow> pos \<Rightarrow> pos set" where
  "RedSoldier_legal_moves b opp loc =
     (let row = fst loc; column = snd loc in
      if \<not> on_board loc then {}
      else
        (let moves = {};
             moves = (if loc = (7, 3) then {(8, 4)} else moves);
             moves = (if loc = (7, 5) then {(8, 4)} else moves);
             moves = (if loc = (8, 4) then {(9, 3), (9, 5)} else moves)
         in moves \<union>
            (soldier_spot b opp (row + 1, column) \<union>
             soldier_spot b opp (row, column + 1) \<union>
             soldier_spot b opp (row, column - 1))))"

definition BlueSoldier_legal_moves :: "board \<Rightarrow> pos set \<Rightarrow> pos \<Rightarrow> pos set" where
  "BlueSoldier_legal_moves b opp loc =
     (let row = fst loc; column = snd loc in
      if \<not> on_board loc then {}
      else
        (let moves = {};
             moves = (if loc = (2, 3) then {(1, 4)} else moves);
             moves = (if loc = (2, 5) then {(1, 4)} else moves);
             moves = (if loc = (1, 4) then {(0, 3), (0, 5)} else moves)
         in moves \<union>
            (soldier_spot b opp (row - 1, column) \<union>
             soldier_spot b opp (row, column + 1) \<union>
             soldier_spot b opp (row, column - 1))))"

subsection \<open>Chariot\<close>

text \<open>
  The chariot's search is one recursive method: the first call is at the chariot's own
  location with \<open>direction=None\<close>, and each recursive call carries the direction string of
  its ray. A ray call on an empty spot returns the spot and goes on in its direction; the
  eight \<open>if direction == ...\<close> statements of the source differ only in the step, which
  \<open>step\<close> tabulates. A call that is neither stopped nor continued (the first call, at the
  chariot's own location) starts the four orthogonal rays, and the four diagonal ones from
  the centre or a corner of either fortress.
\<close>

definition diagonal :: "direction option \<Rightarrow> bool" where
  "diagonal dir \<longleftrightarrow> dir = Some PP \<or> dir = Some PM \<or> dir = Some MP \<or> dir = Some MM"

function chariot_search ::
  "board \<Rightarrow> pos set \<Rightarrow> pos \<Rightarrow> pos \<Rightarrow> direction option \<Rightarrow> pos set" where
  "chariot_search b opp loc cur dir =
     (if \<not> on_board cur then {}
      else if diagonal dir \<and> \<not> in_red_fortress cur \<and> \<not> in_blue_fortress cur then {}
      else if loc \<noteq> cur \<and> at b cur \<noteq> None \<and> cur \<notin> opp then {}
      else if loc \<noteq> cur \<and> cur \<in> opp then {cur}
      else if loc \<noteq> cur \<and> at b cur = None \<and> dir \<noteq> None then
        {cur} \<union> chariot_search b opp loc (step (the dir) cur) dir
      else
        (if cur \<in> red_diagonal_spots \<union> blue_diagonal_spots then
           chariot_search b opp loc (step PP cur) (Some PP) \<union>
           chariot_search b opp loc (step PM cur) (Some PM) \<union>
           chariot_search b opp loc (step MP cur) (Some MP) \<union>
           chariot_search b opp loc (step MM cur) (Some MM)
         else {}) \<union>
        (chariot_search b opp loc (step PE cur) (Some PE) \<union>
         chariot_search b opp loc (step ME cur) (Some ME) \<union>
         chariot_search b opp loc (step EP cur) (Some EP) \<union>
         chariot_search b opp loc (step EM cur) (Some EM)))"
  by pat_completeness auto

text \<open>
  Termination: a ray leaves the board after at most ten steps. The source would start the
  rays anew if a ray came to the chariot's own location, so the measure counts the steps
  up to that location for a ray that points at it, and the room left on the board for
  every other ray.
\<close>

definition ray_hit :: "pos \<Rightarrow> pos \<Rightarrow> direction \<Rightarrow> nat option" where
  "ray_hit loc cur d =
     (let dr = fst (step d (0, 0)); dc = snd (step d (0, 0));
          k = (if dr \<noteq> 0 then (fst loc - fst cur) * dr else (snd loc - snd cur) * dc)
      in if 0 \<le> k \<and> fst cur + k * dr = fst loc \<and> snd cur + k * dc = snd loc
         then Some (nat k) else None)"

fun ray_room :: "direction \<Rightarrow> pos \<Rightarrow> nat" where
  "ray_room PP (r, c) = nat (10 - r)"
| "ray_room PM (r, c) = nat (10 - r)"
| "ray_room PE (r, c) = nat (10 - r)"
| "ray_room MP (r, c) = nat (r + 1)"
| "ray_room MM (r, c) = nat (r + 1)"
| "ray_room ME (r, c) = nat (r + 1)"
| "ray_room EP (r, c) = nat (9 - c)"
| "ray_room EM (r, c) = nat (c + 1)"

definition ray_measure :: "pos \<Rightarrow> pos \<Rightarrow> direction option \<Rightarrow> nat" where
  "ray_measure loc cur dir =
     (case dir of None \<Rightarrow> 200
      | Some d \<Rightarrow> (case ray_hit loc cur d of Some k \<Rightarrow> 100 + k | None \<Rightarrow> ray_room d cur))"

lemma ray_measure_start:
  "on_board loc \<Longrightarrow> ray_measure loc (step d loc) (Some d) \<le> 10"
  by (cases d; cases loc) (auto simp: ray_measure_def ray_hit_def on_board_def Let_def)

lemma ray_measure_at: "ray_measure loc loc (Some d) = 100"
  by (cases d; cases loc) (auto simp: ray_measure_def ray_hit_def Let_def)

lemma ray_measure_step:
  "on_board cur \<Longrightarrow> loc \<noteq> cur \<Longrightarrow>
   ray_measure loc (step d cur) (Some d) < ray_measure loc cur (Some d)"
proof (cases loc; cases cur)
  fix lr lc r c
  assume ob: "on_board cur" and ne: "loc \<noteq> cur" and l: "loc = (lr, lc)" and c: "cur = (r, c)"
  from ob c have b: "0 \<le> r" "r < 10" "0 \<le> c" "c < 9" by (simp_all add: on_board_def)
  from ne l c have n: "lr \<noteq> r \<or> lc \<noteq> c" by simp
  show ?thesis
    unfolding l c ray_measure_def ray_hit_def
    using b n by (cases d) (simp_all add: Let_def, linarith+)
qed

lemma ray_measure_branch:
  "on_board loc \<Longrightarrow> ray_measure loc (step d' loc) (Some d') < ray_measure loc loc (Some d)"
  using ray_measure_start [of loc d'] by (simp add: ray_measure_at)

lemma ray_measure_any:
  "on_board cur \<Longrightarrow> ray_measure loc (step d cur) (Some d) < ray_measure loc cur (Some d)"
  by (cases "loc = cur") (simp_all add: ray_measure_branch ray_measure_step)

lemma chariot_branch_decreases:
  assumes "on_board cur"
    and "\<not> (loc \<noteq> cur \<and> at b cur \<noteq> None \<and> cur \<notin> opp)"
    and "\<not> (loc \<noteq> cur \<and> cur \<in> opp)"
    and "\<not> (loc \<noteq> cur \<and> at b cur = None \<and> dir \<noteq> None)"
  shows "((b, opp, loc, step d' cur, Some d'), b, opp, loc, cur, dir)
          \<in> measures [\<lambda>(b, opp, loc, cur, dir). if dir = None then 1 else 0,
                       \<lambda>(b, opp, loc, cur, dir). ray_measure loc cur dir]"
proof -
  from assms(2-4) have "dir = None \<or> loc = cur" by fastforce
  then show ?thesis
  proof
    assume "dir = None"
    then show ?thesis by simp
  next
    assume "loc = cur"
    with assms(1) show ?thesis
      by (cases dir) (simp_all add: ray_measure_branch)
  qed
qed

termination chariot_search
  apply (relation "measures [\<lambda>(b, opp, loc, cur, dir). if dir = None then 1 else 0,
                             \<lambda>(b, opp, loc, cur, dir). ray_measure loc cur dir]")
  apply simp
  subgoal for b opp loc cur dir by (auto simp: ray_measure_step)
  by (rule chariot_branch_decreases; simp)+

declare chariot_search.simps [simp del]

definition Chariot_legal_moves :: "board \<Rightarrow> pos set \<Rightarrow> pos \<Rightarrow> pos set" where
  "Chariot_legal_moves b opp loc = chariot_search b opp loc loc None"

subsection \<open>Cannon\<close>

text \<open>
  The cannon's rays are orthogonal only. Each \<open>if/elif/else\<close> chain on the direction ends
  in an \<open>else\<close> that moves left, so every direction other than "+=", "-=" and "=+"
  (also \<open>None\<close>, the default of the first call) goes on as "=-".
\<close>

definition cannon_direction :: "direction option \<Rightarrow> direction" where
  "cannon_direction dir =
     (if dir = Some PE then PE else if dir = Some ME then ME else if dir = Some EP then EP else EM)"

definition red_corners :: "pos \<rightharpoonup> pos" where
  "red_corners = [(0, 3) \<mapsto> (2, 5), (0, 5) \<mapsto> (2, 3), (2, 3) \<mapsto> (0, 5), (2, 5) \<mapsto> (0, 3)]"

definition blue_corners :: "pos \<rightharpoonup> pos" where
  "blue_corners = [(7, 3) \<mapsto> (9, 5), (7, 5) \<mapsto> (9, 3), (9, 3) \<mapsto> (7, 5), (9, 5) \<mapsto> (7, 3)]"

text \<open>The diagonal jumps added by the call that starts the rays: the opposite corner is put
  into the result as it is; the spot tested for the red fortress is (0, 4), for the blue
  fortress (8, 4).\<close>

definition cannon_diagonals :: "pos set \<Rightarrow> pos \<Rightarrow> pos set" where
  "cannon_diagonals positions loc =
     (let diagonals = {};
          diagonals =
            (case red_corners loc of
               Some corner \<Rightarrow> if (0, 4) \<in> positions then diagonals \<union> {corner} else diagonals
             | None \<Rightarrow> diagonals);
          diagonals =
            (case blue_corners loc of
               Some corner \<Rightarrow> if (8, 4) \<in> positions then diagonals \<union> {corner} else diagonals
             | None \<Rightarrow> diagonals)
      in diagonals)"

function cannon_search ::
  "board \<Rightarrow> pos set \<Rightarrow> pos set \<Rightarrow> pos \<Rightarrow> nat \<Rightarrow> pos \<Rightarrow> direction option \<Rightarrow> pos set" where
  "cannon_search b opp positions loc cnt cur dir =
     (if \<not> on_board cur then {}
      else if cur \<noteq> loc \<and> at b cur \<noteq> None \<and> cur \<notin> positions then {}
      else if cnt > 1 then {}
      else if cnt = 1 \<and> cur \<in> opp then {cur}
      else if cnt = 1 \<and> at b cur = None then
        {cur} \<union> cannon_search b opp positions loc cnt
                  (step (cannon_direction dir) cur) (Some (cannon_direction dir))
      else if at b cur = None then
        cannon_search b opp positions loc cnt
          (step (cannon_direction dir) cur) (Some (cannon_direction dir))
      else if cur \<in> positions then
        cannon_search b opp positions loc (cnt + 1)
          (step (cannon_direction dir) cur) (Some (cannon_direction dir))
      else
        cannon_diagonals positions loc \<union>
        (cannon_search b opp positions loc cnt (step PE cur) (Some PE) \<union>
         cannon_search b opp positions loc cnt (step ME cur) (Some ME) \<union>
         cannon_search b opp positions loc cnt (step EP cur) (Some EP) \<union>
         cannon_search b opp positions loc cnt (step EM cur) (Some EM)))"
  by pat_completeness auto

definition cannon_rank :: "direction option \<Rightarrow> nat" where
  "cannon_rank dir = (if dir = Some (cannon_direction dir) then 0 else 1)"

lemma cannon_direction_idem [simp]:
  "cannon_direction (Some (cannon_direction dir)) = cannon_direction dir"
  by (simp add: cannon_direction_def)

lemma cannon_rank_direction [simp]: "cannon_rank (Some (cannon_direction dir)) = 0"
  by (simp add: cannon_rank_def)

lemma cannon_ray_decreases:
  assumes "on_board cur"
  shows "((b, opp, positions, loc, cnt', step (cannon_direction dir) cur,
           Some (cannon_direction dir)),
          b, opp, positions, loc, cnt, cur, dir)
          \<in> measures [\<lambda>(b, opp, positions, loc, cnt, cur, dir). cannon_rank dir,
                       \<lambda>(b, opp, positions, loc, cnt, cur, dir). ray_measure loc cur dir]"
proof (cases "dir = Some (cannon_direction dir)")
  case True
  then have "ray_measure loc (step (cannon_direction dir) cur) (Some (cannon_direction dir))
             < ray_measure loc cur dir"
    using ray_measure_any [OF assms, of loc "cannon_direction dir"] by simp
  then show ?thesis by auto
next
  case False
  then show ?thesis by (simp add: cannon_rank_def)
qed

lemma cannon_branch_decreases:
  assumes "on_board cur"
    and "\<not> (cur \<noteq> loc \<and> at b cur \<noteq> None \<and> cur \<notin> positions)"
    and "at b cur \<noteq> None" and "cur \<notin> positions"
    and "d' = cannon_direction (Some d')"
  shows "((b, opp, positions, loc, cnt, step d' cur, Some d'),
          b, opp, positions, loc, cnt, cur, dir)
          \<in> measures [\<lambda>(b, opp, positions, loc, cnt, cur, dir). cannon_rank dir,
                       \<lambda>(b, opp, positions, loc, cnt, cur, dir). ray_measure loc cur dir]"
proof -
  from assms(2-4) have l: "cur = loc" by blast
  have r: "cannon_rank (Some d') = 0" using assms(5) by (simp add: cannon_rank_def)
  show ?thesis
  proof (cases "cannon_rank dir = 0")
    case True
    then obtain d where "dir = Some d"
      by (cases dir) (simp_all add: cannon_rank_def)
    with assms(1) l r True show ?thesis by (simp add: ray_measure_branch)
  next
    case False
    with r show ?thesis by simp
  qed
qed

termination cannon_search
  apply (relation "measures [\<lambda>(b, opp, positions, loc, cnt, cur, dir). cannon_rank dir,
                    \<lambda>(b, opp, positions, loc, cnt, cur, dir). ray_measure loc cur dir]")
  apply simp
  apply (rule cannon_ray_decreases; simp)
  apply (rule cannon_ray_decreases; simp)
  apply (rule cannon_ray_decreases; simp)
  by (rule cannon_branch_decreases; simp add: cannon_direction_def)+

declare cannon_search.simps [simp del]

text \<open>\<open>[(row, column) for row in range(10) for column in range(9)]\<close>\<close>

definition all_spots :: "pos list" where
  "all_spots = concat (map (\<lambda>row. map (\<lambda>column. (row, column)) [0..8]) [0..9])"

text \<open>The positions of all pieces on the board that are not of type "Cannon"; the source
  builds a list and only tests membership in it.\<close>

definition non_cannon_positions :: "board \<Rightarrow> heap \<Rightarrow> pos set" where
  "non_cannon_positions b h =
     set (filter (\<lambda>p. case at b p of None \<Rightarrow> False | Some q \<Rightarrow> ptype (h ! q) \<noteq> TCannon)
            all_spots)"

definition Cannon_legal_moves :: "board \<Rightarrow> heap \<Rightarrow> pos set \<Rightarrow> pos \<Rightarrow> pos set" where
  "Cannon_legal_moves b h opp loc =
     cannon_search b opp (non_cannon_positions b h) loc 0 loc None"

subsection \<open>Method dispatch\<close>

text \<open>
  \<open>piece.get_legal_moves(board, opposition)\<close>. Every class starts by calling itself again
  with \<open>self.get_location()\<close> for \<open>current_spot\<close> when that parameter is None; for a piece
  whose location is None (a captured piece) this never stops, which Python ends with a
  RecursionError.
\<close>

definition get_legal_moves :: "board \<Rightarrow> heap \<Rightarrow> pos set \<Rightarrow> piece \<Rightarrow> error + pos set" where
  "get_legal_moves b h opp p =
     (case location p of
        None \<Rightarrow> Inl RecursionError
      | Some loc \<Rightarrow>
          Inr (case pclass p of
                 BlueGeneral \<Rightarrow> BlueGeneral_legal_moves b opp loc
               | RedGeneral \<Rightarrow> RedGeneral_legal_moves b opp loc
               | BlueGuard \<Rightarrow> BlueGuard_legal_moves b opp loc
               | RedGuard \<Rightarrow> RedGuard_legal_moves b opp loc
               | Horse \<Rightarrow> Horse_legal_moves b opp loc
               | Elephant \<Rightarrow> Elephant_legal_moves b opp loc
               | Chariot \<Rightarrow> Chariot_legal_moves b opp loc
               | Cannon \<Rightarrow> Cannon_legal_moves b h opp loc
               | RedSoldier \<Rightarrow> RedSoldier_legal_moves b opp loc
               | BlueSoldier \<Rightarrow> BlueSoldier_legal_moves b opp loc))"

section \<open>The game\<close>

subsection \<open>Board access\<close>

text \<open>
  \<open>board[p[0]][p[1]]\<close> on the list of ten rows of nine cells: Python counts a negative
  index from the end of the list and raises IndexError outside \<open>-len .. len - 1\<close>.
  \<open>cell_of\<close> is the cell that the two indices denote when they are in range.
\<close>

definition cell_of :: "pos \<Rightarrow> pos" where
  "cell_of p =
     (if fst p < 0 then fst p + 10 else fst p, if snd p < 0 then snd p + 9 else snd p)"

definition py_pos :: "pos \<Rightarrow> error + pos" where
  "py_pos p = (if on_board (cell_of p) then Inr (cell_of p) else Inl IndexError)"

definition get_item :: "board \<Rightarrow> pos \<Rightarrow> error + pid option" where
  "get_item b p = (case py_pos p of Inl e \<Rightarrow> Inl e | Inr c \<Rightarrow> Inr (at b c))"

text \<open>\<open>board[row][column] = v\<close> for a cell of the board.\<close>

definition put :: "board \<Rightarrow> pos \<Rightarrow> pid option \<Rightarrow> board" where
  "put b p v = b[nat (fst p) := (b ! nat (fst p))[nat (snd p) := v]]"

subsection \<open>The initial layout\<close>

definition new_piece :: "player \<Rightarrow> pos \<Rightarrow> ptype \<Rightarrow> pclass \<Rightarrow> piece" where
  "new_piece own loc t c = \<lparr>owner = own, location = Some loc, ptype = t, pclass = c\<rparr>"

text \<open>\<open>blue_initial\<close> and \<open>red_initial\<close>: the general's spot, the pairs of spots of guards,
  horses, elephants, chariots and cannons, and the five soldiers' spots.\<close>

definition blue_initial :: "pos \<times> pos list list \<times> pos list" where
  "blue_initial =
     ((8, 4),
      [[(9, 3), (9, 5)], [(9, 2), (9, 7)], [(9, 1), (9, 6)], [(9, 0), (9, 8)], [(7, 1), (7, 7)]],
      [(6, 0), (6, 2), (6, 4), (6, 6), (6, 8)])"

definition red_initial :: "pos \<times> pos list list \<times> pos list" where
  "red_initial =
     ((1, 4),
      [[(0, 3), (0, 5)], [(0, 2), (0, 7)], [(0, 1), (0, 6)], [(0, 0), (0, 8)], [(2, 1), (2, 7)]],
      [(3, 0), (3, 2), (3, 4), (3, 6), (3, 8)])"

text \<open>\<open>create_pieces\<close>: the pieces of one side in the order in which they are appended to
  that side's list: the general, then for \<open>number\<close> 0 and 1 a guard, a horse, an elephant, a
  chariot and a cannon, then the five soldiers.\<close>

definition create_pieces ::
  "player \<Rightarrow> pos \<times> pos list list \<times> pos list \<Rightarrow> pclass \<Rightarrow> pclass \<Rightarrow> pclass \<Rightarrow> piece list" where
  "create_pieces own initial general guard soldier =
     (case initial of (g, pairs, soldiers) \<Rightarrow>
        [new_piece own g TGeneral general] @
        concat (map (\<lambda>number.
          [new_piece own (pairs ! 0 ! number) TGuard guard,
           new_piece own (pairs ! 1 ! number) THorse Horse,
           new_piece own (pairs ! 2 ! number) TElephant Elephant,
           new_piece own (pairs ! 3 ! number) TChariot Chariot,
           new_piece own (pairs ! 4 ! number) TCannon Cannon]) [0, 1]) @
        map (\<lambda>number. new_piece own (soldiers ! number) TSoldier soldier) [0, 1, 2, 3, 4])"

text \<open>The store of a new game holds the sixteen blue pieces (identities 0 to 15) and then
  the sixteen red ones (16 to 31).\<close>

definition initial_heap :: heap where
  "initial_heap =
     create_pieces Blue blue_initial BlueGeneral BlueGuard BlueSoldier @
     create_pieces Red red_initial RedGeneral RedGuard RedSoldier"

text \<open>\<open>add_pieces\<close>: each piece is put on the board at its location, blue pieces first.\<close>

fun add_pieces :: "heap \<Rightarrow> pid list \<Rightarrow> board \<Rightarrow> board" where
  "add_pieces h [] b = b"
| "add_pieces h (q # qs) b =
     add_pieces h qs (case location (h ! q) of None \<Rightarrow> b | Some position \<Rightarrow> put b position (Some q))"

definition create_board :: board where
  "create_board = add_pieces initial_heap ([0..<16] @ [16..<32]) (replicate 10 (replicate 9 None))"

text \<open>\<open>JanggiGame.__init__\<close>\<close>

definition new_game :: game where
  "new_game =
     \<lparr>board = create_board, heap = initial_heap, blue_pieces = [0..<16], red_pieces = [16..<32],
      game_state = UNFINISHED, current_turn = Blue\<rparr>"

subsection \<open>Accessors and setters\<close>

definition get_pieces :: "game \<Rightarrow> player \<Rightarrow> pid list" where
  "get_pieces s player = (if player = Blue then blue_pieces s else red_pieces s)"

text \<open>\<open>{piece.get_location() for piece in ...}\<close>: the set is only ever asked whether a
  (row, column) tuple is in it, so a None among the locations is dropped.\<close>

definition positions_of :: "heap \<Rightarrow> pid list \<Rightarrow> pos set" where
  "positions_of h ps = Option.these ((\<lambda>q. location (h ! q)) ` set ps)"

definition get_opposition_positions :: "game \<Rightarrow> player \<Rightarrow> pos set" where
  "get_opposition_positions s player =
     (if player = Blue then positions_of (heap s) (red_pieces s)
      else positions_of (heap s) (blue_pieces s))"

definition get_opposition :: "game \<Rightarrow> player" where
  "get_opposition s = (if current_turn s = Blue then Red else Blue)"

definition change_turn :: "game \<Rightarrow> game" where
  "change_turn s = s\<lparr>current_turn := (if current_turn s = Blue then Red else Blue)\<rparr>"

definition set_game_state :: "game \<Rightarrow> player \<Rightarrow> game" where
  "set_game_state s player = s\<lparr>game_state := (if player = Blue then BLUE_WON else RED_WON)\<rparr>"

definition set_location :: "game \<Rightarrow> pid \<Rightarrow> pos option \<Rightarrow> game" where
  "set_location s q l = s\<lparr>heap := (heap s)[q := (heap s ! q)\<lparr>location := l\<rparr>]\<rparr>"

subsection \<open>Check\<close>

text \<open>The first loop of \<open>is_in_check\<close>: \<open>position\<close> ends as the location of the last piece of
  type "General" in the list, or stays None.\<close>

fun general_location :: "heap \<Rightarrow> pid list \<Rightarrow> pos option \<Rightarrow> pos option" where
  "general_location h [] position = position"
| "general_location h (q # qs) position =
     general_location h qs (if ptype (h ! q) = TGeneral then location (h ! q) else position)"

text \<open>The second loop: the union of the legal moves of every piece in the list.\<close>

fun all_legal_moves :: "board \<Rightarrow> heap \<Rightarrow> pos set \<Rightarrow> pid list \<Rightarrow> pos set \<Rightarrow> error + pos set" where
  "all_legal_moves b h opp [] all_positions = Inr all_positions"
| "all_legal_moves b h opp (q # qs) all_positions =
     (case get_legal_moves b h opp (h ! q) of
        Inl e \<Rightarrow> Inl e
      | Inr moves \<Rightarrow> all_legal_moves b h opp qs (all_positions \<union> moves))"

definition is_in_check :: "game \<Rightarrow> player \<Rightarrow> error + bool" where
  "is_in_check s player =
     (if player = Blue then
        (let position = general_location (heap s) (blue_pieces s) None in
         case all_legal_moves (board s) (heap s) (get_opposition_positions s Red)
                (red_pieces s) {} of
           Inl e \<Rightarrow> Inl e
         | Inr all_positions \<Rightarrow>
             Inr (case position of None \<Rightarrow> False | Some p \<Rightarrow> p \<in> all_positions))
      else
        (let position = general_location (heap s) (red_pieces s) None in
         case all_legal_moves (board s) (heap s) (get_opposition_positions s Blue)
                (blue_pieces s) {} of
           Inl e \<Rightarrow> Inl e
         | Inr all_positions \<Rightarrow>
             Inr (case position of None \<Rightarrow> False | Some p \<Rightarrow> p \<in> all_positions)))"

subsection \<open>Moving, and simulating a move\<close>

text \<open>
  The block \<open>if board[move_to[0]][move_to[1]] != "": ...\<close> that \<open>update_board\<close> and
  \<open>leaves_in_check\<close> share: the piece on the destination is taken off the board, its location
  is set to None and it is removed from the red list if it is in it, from the blue list
  otherwise (\<open>list.remove\<close> raises ValueError for a piece that is not in the list, with the
  piece already off the board). The result is the removed piece, if any, and the new state.
\<close>

definition capture :: "game \<Rightarrow> pos \<Rightarrow> (error \<times> game) + (pid option \<times> game)" where
  "capture s t =
     (case at (board s) t of
        None \<Rightarrow> Inr (None, s)
      | Some opponent \<Rightarrow>
          (let s1 = s\<lparr>board := put (board s) t None\<rparr>;
               s2 = set_location s1 opponent None
           in if opponent \<in> set (red_pieces s2) then
                Inr (Some opponent, s2\<lparr>red_pieces := remove1 opponent (red_pieces s2)\<rparr>)
              else if opponent \<in> set (blue_pieces s2) then
                Inr (Some opponent, s2\<lparr>blue_pieces := remove1 opponent (blue_pieces s2)\<rparr>)
              else Inl (ValueError, s2)))"

text \<open>The common start of both methods: grab the piece on \<open>move_from\<close>, empty that cell,
  capture what is on \<open>move_to\<close>, put the piece there and set its location to \<open>move_to\<close>
  (AttributeError when the cell \<open>move_from\<close> held the empty string, which is then what
  \<open>move_to\<close> holds). The result is the piece moved, the piece captured and the new state;
  \<open>f\<close> and \<open>t\<close> are the cells that the two positions index. An IndexError of the second
  position is raised with the first cell already emptied.\<close>

definition move_piece ::
  "game \<Rightarrow> pos \<Rightarrow> pos \<Rightarrow> (error \<times> game) + (pid \<times> pid option \<times> game)" where
  "move_piece s move_from move_to =
     (case py_pos move_from of
        Inl e \<Rightarrow> Inl (e, s)
      | Inr f \<Rightarrow>
          (let piece = at (board s) f;
               s1 = s\<lparr>board := put (board s) f None\<rparr>
           in case py_pos move_to of
                Inl e \<Rightarrow> Inl (e, s1)
              | Inr t \<Rightarrow>
                  (case capture s1 t of
                     Inl e \<Rightarrow> Inl e
                   | Inr (opponent, s2) \<Rightarrow>
                       (case piece of
                          None \<Rightarrow> Inl (AttributeError, s2\<lparr>board := put (board s2) t None\<rparr>)
                        | Some p \<Rightarrow>
                            Inr (p, opponent,
                                 set_location (s2\<lparr>board := put (board s2) t (Some p)\<rparr>) p
                                   (Some move_to))))))"

definition update_board :: "game \<Rightarrow> pos \<Rightarrow> pos \<Rightarrow> (error \<times> game) + game" where
  "update_board s move_from move_to =
     (case move_piece s move_from move_to of
        Inl e \<Rightarrow> Inl e
      | Inr (p, opponent, s') \<Rightarrow> Inr s')"

text \<open>The second half of \<open>leaves_in_check\<close>: the moved piece goes back to \<open>move_from\<close>; a
  captured piece goes back to \<open>move_to\<close> and is appended to the list of its owner, otherwise
  \<open>move_to\<close> is emptied. When the check test raises, the move stays made.\<close>

definition restore :: "game \<Rightarrow> pos \<Rightarrow> pos \<Rightarrow> pid \<Rightarrow> pid option \<Rightarrow> game" where
  "restore s move_from move_to p opponent =
     (let f = cell_of move_from; t = cell_of move_to;
          s1 = set_location (s\<lparr>board := put (board s) f (Some p)\<rparr>) p (Some move_from)
      in case opponent of
           Some opp \<Rightarrow>
             (let s2 = set_location (s1\<lparr>board := put (board s1) t (Some opp)\<rparr>) opp (Some move_to)
              in if owner (heap s2 ! opp) = Blue
                 then s2\<lparr>blue_pieces := blue_pieces s2 @ [opp]\<rparr>
                 else s2\<lparr>red_pieces := red_pieces s2 @ [opp]\<rparr>)
         | None \<Rightarrow> s1\<lparr>board := put (board s1) t None\<rparr>)"

definition leaves_in_check ::
  "game \<Rightarrow> pos \<Rightarrow> pos \<Rightarrow> (error \<times> game) + (bool \<times> game)" where
  "leaves_in_check s move_from move_to =
     (case move_piece s move_from move_to of
        Inl e \<Rightarrow> Inl e
      | Inr (p, opponent, s1) \<Rightarrow>
          (case is_in_check s1 (owner (heap s1 ! p)) of
             Inl e \<Rightarrow> Inl (e, s1)
           | Inr in_check \<Rightarrow> Inr (in_check, restore s1 move_from move_to p opponent)))"

subsection \<open>Checkmate\<close>

text \<open>
  The inner loop of \<open>is_check_mate\<close>, \<open>for move_to in moves\<close>, over the moves in the order
  in which the set hands them out: the result is True as soon as a simulated move does not
  leave the player in check (the source returns False from \<open>is_check_mate\<close> there).
  \<open>piece.get_location()\<close> is read anew for every move.
\<close>

fun escapes :: "game \<Rightarrow> pid \<Rightarrow> pos list \<Rightarrow> (error \<times> game) + (bool \<times> game)" where
  "escapes s piece [] = Inr (False, s)"
| "escapes s piece (move_to # rest) =
     (case location (heap s ! piece) of
        None \<Rightarrow> Inl (TypeError, s)
      | Some loc \<Rightarrow>
          (case leaves_in_check s loc move_to of
             Inl e \<Rightarrow> Inl e
           | Inr (in_check, s') \<Rightarrow>
               if \<not> in_check then Inr (True, s') else escapes s' piece rest))"

lemma length_remove1_member: "x \<in> set xs \<Longrightarrow> Suc (length (remove1 x xs)) = length xs"
  by (induction xs) auto

lemma capture_total:
  "capture s t = Inr (opponent, s') \<Longrightarrow>
   length (red_pieces s') + length (blue_pieces s') + (if opponent = None then 0 else 1) =
   length (red_pieces s) + length (blue_pieces s)"
  by (auto simp: capture_def set_location_def Let_def
           split: option.splits if_splits dest: length_remove1_member)

lemma leaves_in_check_total:
  assumes "leaves_in_check s move_from move_to = Inr (r, s')"
  shows "length (red_pieces s') + length (blue_pieces s') =
         length (red_pieces s) + length (blue_pieces s)"
proof -
  from assms obtain p opponent s1 where
    m: "move_piece s move_from move_to = Inr (p, opponent, s1)"
    and s': "s' = restore s1 move_from move_to p opponent"
    by (auto simp: leaves_in_check_def split: sum.splits)
  from m obtain s0 s2 where
    c: "capture s0 (cell_of move_to) = Inr (opponent, s2)"
    and s0: "red_pieces s0 = red_pieces s" "blue_pieces s0 = blue_pieces s"
    and s1: "red_pieces s1 = red_pieces s2" "blue_pieces s1 = blue_pieces s2"
    by (auto simp: move_piece_def py_pos_def set_location_def Let_def
             split: sum.splits option.splits if_splits)
  from capture_total [OF c] s0 s1 s' show ?thesis
    by (cases opponent) (auto simp: restore_def set_location_def Let_def)
qed

lemma escapes_total:
  "escapes s piece ms = Inr (r, s') \<Longrightarrow>
   length (red_pieces s') + length (blue_pieces s') =
   length (red_pieces s) + length (blue_pieces s)"
proof (induction ms arbitrary: s)
  case Nil
  then show ?case by simp
next
  case (Cons m ms)
  then show ?case
    by (auto split: option.splits sum.splits if_splits dest: leaves_in_check_total)
qed

text \<open>
  The outer loop, \<open>for piece in self.get_red_pieces()\<close> (or the blue pieces): Python's list
  iterator keeps an index into the list itself, and the simulated moves of the loop body
  remove pieces from the lists and append them again, so the model reads the list of the
  current state at index \<open>i\<close>. \<open>order\<close> stands for the order in which Python iterates over
  a set of tuples, which the language leaves open.
\<close>

function check_mate_loop ::
  "(pos set \<Rightarrow> pos list) \<Rightarrow> player \<Rightarrow> game \<Rightarrow> nat \<Rightarrow> (error \<times> game) + (bool \<times> game)" where
  "check_mate_loop order player s i =
     (if i < length (get_pieces s player) then
        (let piece = get_pieces s player ! i in
         case get_legal_moves (board s) (heap s) (get_opposition_positions s player)
                (heap s ! piece) of
           Inl e \<Rightarrow> Inl (e, s)
         | Inr moves \<Rightarrow>
             (case escapes s piece (order moves) of
                Inl e \<Rightarrow> Inl e
              | Inr (escaped, s') \<Rightarrow>
                  if escaped then Inr (False, s') else check_mate_loop order player s' (i + 1)))
      else Inr (True, s))"
  by pat_completeness auto

termination check_mate_loop
proof (relation "measure (\<lambda>(order, player, s, i).
                   length (red_pieces s) + length (blue_pieces s) - i)", goal_cases)
  case 1
  show ?case by simp
next
  case (2 order player s i piece moves r escaped s')
  from 2(4,5) have "length (red_pieces s') + length (blue_pieces s') =
                  length (red_pieces s) + length (blue_pieces s)"
    using escapes_total by metis
  moreover from 2(1) have "i < length (red_pieces s) + length (blue_pieces s)"
    by (simp add: get_pieces_def split: if_splits)
  ultimately show ?case by simp
qed

declare check_mate_loop.simps [simp del]

definition is_check_mate ::
  "(pos set \<Rightarrow> pos list) \<Rightarrow> game \<Rightarrow> player \<Rightarrow> (error \<times> game) + (bool \<times> game)" where
  "is_check_mate order s player = check_mate_loop order player s 0"

subsection \<open>Translating the algebraic notation\<close>

text \<open>
  \<open>int(text)\<close> for a string: surrounding whitespace is stripped, a sign may come first, and
  the digits may be separated by single underscores; anything else raises ValueError. A
  \<open>char\<close> stands for a code point below 256, where the decimal digits are 0 to 9 and the
  whitespace that \<open>int\<close> strips is what \<open>is_space\<close> lists: tab, line feed, vertical tab, form
  feed, carriage return and space, and of the code points above 126 the next-line character
  133 and the no-break space 160. (The separators 28 to 31 are whitespace for \<open>str.strip\<close>
  but not for \<open>int\<close>.) The bound that later versions of Python put on the number of digits
  is left out.
\<close>

definition is_space :: "char \<Rightarrow> bool" where
  "is_space c \<longleftrightarrow> (of_char c :: nat) \<in> {9, 10, 11, 12, 13, 32, 133, 160}"

definition is_digit :: "char \<Rightarrow> bool" where
  "is_digit c \<longleftrightarrow> 48 \<le> (of_char c :: nat) \<and> (of_char c :: nat) \<le> 57"

definition digit_value :: "char \<Rightarrow> int" where
  "digit_value c = int (of_char c) - 48"

fun py_digits :: "int \<Rightarrow> string \<Rightarrow> error + int" where
  "py_digits acc [] = Inr acc"
| "py_digits acc (c # cs) =
     (if is_digit c then py_digits (10 * acc + digit_value c) cs
      else if c = CHR ''_'' then
        (case cs of
           [] \<Rightarrow> Inl ValueError
         | d # ds \<Rightarrow>
             if is_digit d then py_digits (10 * acc + digit_value d) ds else Inl ValueError)
      else Inl ValueError)"

definition py_unsigned :: "string \<Rightarrow> error + int" where
  "py_unsigned text =
     (case text of
        [] \<Rightarrow> Inl ValueError
      | c # cs \<Rightarrow> if is_digit c then py_digits (digit_value c) cs else Inl ValueError)"

definition py_int :: "string \<Rightarrow> error + int" where
  "py_int text =
     (case rev (dropWhile is_space (rev (dropWhile is_space text))) of
        [] \<Rightarrow> Inl ValueError
      | c # cs \<Rightarrow>
          if c = CHR ''+'' then py_unsigned cs
          else if c = CHR ''-'' then
            (case py_unsigned cs of Inl e \<Rightarrow> Inl e | Inr n \<Rightarrow> Inr (- n))
          else py_unsigned (c # cs))"

definition translate :: "char \<rightharpoonup> int" where
  "translate =
     [CHR ''a'' \<mapsto> 0, CHR ''b'' \<mapsto> 1, CHR ''c'' \<mapsto> 2, CHR ''d'' \<mapsto> 3, CHR ''e'' \<mapsto> 4,
      CHR ''f'' \<mapsto> 5, CHR ''g'' \<mapsto> 6, CHR ''h'' \<mapsto> 7, CHR ''i'' \<mapsto> 8]"

text \<open>\<open>(int(move[1:]) - 1, translate[move[0]])\<close>: the row is computed first, so an empty
  string fails in \<open>int\<close> before \<open>move[0]\<close> is read.\<close>

definition translate_position :: "string \<Rightarrow> error + pos" where
  "translate_position move =
     (case py_int (drop 1 move) of
        Inl e \<Rightarrow> Inl e
      | Inr rank \<Rightarrow>
          (case move of
             [] \<Rightarrow> Inl IndexError
           | letter # _ \<Rightarrow>
               (case translate letter of
                  None \<Rightarrow> Inl KeyError
                | Some column \<Rightarrow> Inr (rank - 1, column))))"

subsection \<open>make_move\<close>

text \<open>
  The result is the returned boolean, or the exception raised, and the state the call leaves
  behind. The two strings are compared as they are given (\<open>move_from == move_to\<close>), not the
  positions they translate to. The steps after the legality test are \<open>commit_move\<close>: the
  simulation, \<open>update_board\<close>, and the check and checkmate tests on the opposition player.
\<close>

definition commit_move ::
  "(pos set \<Rightarrow> pos list) \<Rightarrow> game \<Rightarrow> player \<Rightarrow> pos \<Rightarrow> pos \<Rightarrow>
   (error \<times> game) + (bool \<times> game)" where
  "commit_move order s player from_position to_position =
     (case leaves_in_check s from_position to_position of
        Inl e \<Rightarrow> Inl e
      | Inr (in_check, s1) \<Rightarrow>
          if in_check then Inr (False, s1)
          else
            (case update_board s1 from_position to_position of
               Inl e \<Rightarrow> Inl e
             | Inr s2 \<Rightarrow>
                 (case is_in_check s2 (get_opposition s2) of
                    Inl e \<Rightarrow> Inl (e, s2)
                  | Inr False \<Rightarrow> Inr (True, change_turn s2)
                  | Inr True \<Rightarrow>
                      (case is_check_mate order s2 (get_opposition s2) of
                         Inl e \<Rightarrow> Inl e
                       | Inr (mate, s3) \<Rightarrow>
                           if mate then Inr (True, set_game_state s3 player)
                           else Inr (True, change_turn s3)))))"

definition make_move ::
  "(pos set \<Rightarrow> pos list) \<Rightarrow> game \<Rightarrow> string \<Rightarrow> string \<Rightarrow> (error \<times> game) + (bool \<times> game)" where
  "make_move order s move_from move_to =
     (case translate_position move_to of
        Inl e \<Rightarrow> Inl (e, s)
      | Inr to_position \<Rightarrow>
     (case translate_position move_from of
        Inl e \<Rightarrow> Inl (e, s)
      | Inr from_position \<Rightarrow>
          if game_state s \<noteq> UNFINISHED then Inr (False, s)
          else
            (case get_item (board s) from_position of
               Inl e \<Rightarrow> Inl (e, s)
             | Inr None \<Rightarrow> Inr (False, s)
             | Inr (Some piece) \<Rightarrow>
                 (let player = owner (heap s ! piece) in
                  if player \<noteq> current_turn s then Inr (False, s)
                  else
                    (case (if move_from = move_to then is_in_check s player else Inr True) of
                       Inl e \<Rightarrow> Inl (e, s)
                     | Inr in_check \<Rightarrow>
                         if move_from = move_to \<and> \<not> in_check then Inr (True, change_turn s)
                         else
                           (case get_legal_moves (board s) (heap s)
                                   (get_opposition_positions s player) (heap s ! piece) of
                              Inl e \<Rightarrow> Inl (e, s)
                            | Inr moves \<Rightarrow>
                                if to_position \<notin> moves then Inr (False, s)
                                else commit_move order s player from_position to_position))))))"

text \<open>An iteration order for the sets of spots that \<open>get_legal_moves\<close> returns: row by row.\<close>

definition row_major :: "pos set \<Rightarrow> pos list" where
  "row_major moves = filter (\<lambda>p. p \<in> moves) all_spots"

subsection \<open>A sequence of calls\<close>

text \<open>\<open>main\<close> issues \<open>make_move\<close> calls one after the other on the same game object.
  \<open>play\<close> does so for a list of (origin, destination) pairs and gives the results of the
  calls and the state they leave; it stops at a call that raises, with the state that this
  call leaves.\<close>

fun play ::
  "(pos set \<Rightarrow> pos list) \<Rightarrow> game \<Rightarrow> (string \<times> string) list \<Rightarrow> (error + bool) list \<times> game" where
  "play order s [] = ([], s)"
| "play order s ((move_from, move_to) # calls) =
     (case make_move order s move_from move_to of
        Inl (e, s') \<Rightarrow> ([Inl e], s')
      | Inr (result, s') \<Rightarrow>
          (case play order s' calls of (results, s'') \<Rightarrow> (Inr result # results, s'')))"

text \<open>The state that a list of calls leaves when it is played on a new game, with the
  sets iterated row by row.\<close>

definition after_calls :: "(string \<times> string) list \<Rightarrow> game" where
  "after_calls calls = snd (play row_major new_game calls)"

section \<open>Where the legal moves lie\<close>

text \<open>Every spot that a piece may move to is on the board and is not the piece's own
  location; apart from the diagonal spots of cannons and soldiers it is empty or an opposition
  position.\<close>

lemma soldier_spot_iff:
  "x \<in> soldier_spot b opp cur \<longleftrightarrow> x = cur \<and> on_board cur \<and> (at b cur = None \<or> cur \<in> opp)"
  by (auto simp: soldier_spot_def)

lemma fortress_spot_iff:
  "x \<in> fortress_spot f b opp cur \<longleftrightarrow> x = cur \<and> f cur \<and> (at b cur = None \<or> cur \<in> opp)"
  by (auto simp: fortress_spot_def)

lemma horse_final_iff:
  "x \<in> horse_final b opp cur \<longleftrightarrow> x = cur \<and> on_board cur \<and> (at b cur = None \<or> cur \<in> opp)"
  by (auto simp: horse_final_def)

lemma elephant_final_iff:
  "x \<in> elephant_final b opp cur \<longleftrightarrow> x = cur \<and> on_board cur \<and> (at b cur = None \<or> cur \<in> opp)"
  by (auto simp: elephant_final_def)

lemma in_fortress_on_board:
  "in_red_fortress p \<Longrightarrow> on_board p" "in_blue_fortress p \<Longrightarrow> on_board p"
  by (simp_all add: in_red_fortress_def in_blue_fortress_def on_board_def)

lemma fortress_moves_sound:
  assumes "x \<in> fortress_moves f spots b opp loc"
  shows "f x \<and> x \<noteq> loc \<and> (at b x = None \<or> x \<in> opp)"
  using assms
  by (cases loc) (auto simp: fortress_moves_def fortress_spot_iff Let_def split: if_splits)

lemma horse_initial_sound:
  assumes "x \<in> horse_initial b opp loc cur"
    and "cur \<in> {(fst loc + 1, snd loc), (fst loc - 1, snd loc), (fst loc, snd loc + 1), (fst loc, snd loc - 1)}"
  shows "on_board x \<and> x \<noteq> loc \<and> (at b x = None \<or> x \<in> opp)"
  using assms
  by (cases loc; cases cur) (auto simp: horse_initial_def horse_final_iff Let_def split: if_splits)

lemma Horse_sound:
  assumes "x \<in> Horse_legal_moves b opp loc"
  shows "on_board x \<and> x \<noteq> loc \<and> (at b x = None \<or> x \<in> opp)"
proof -
  from assms obtain cur where "x \<in> horse_initial b opp loc cur"
    "cur \<in> {(fst loc + 1, snd loc), (fst loc - 1, snd loc), (fst loc, snd loc + 1), (fst loc, snd loc - 1)}"
    by (auto simp: Horse_legal_moves_def Let_def split: if_splits)
  then show ?thesis by (rule horse_initial_sound)
qed

lemma elephant_mid_sound:
  assumes "x \<in> elephant_mid b opp cur d"
  shows "on_board x \<and> (at b x = None \<or> x \<in> opp) \<and>
         x = step (if d = PP \<or> d = PM \<or> d = MP then d else MM) cur"
  using assms
  by (cases cur) (auto simp: elephant_mid_def elephant_final_iff Let_def split: if_splits)

lemma elephant_initial_sound:
  assumes "x \<in> elephant_initial b opp loc cur"
    and "cur \<in> {(fst loc + 1, snd loc), (fst loc - 1, snd loc), (fst loc, snd loc + 1), (fst loc, snd loc - 1)}"
  shows "on_board x \<and> x \<noteq> loc \<and> (at b x = None \<or> x \<in> opp)"
  using assms
  by (cases loc; cases cur)
     (auto simp: elephant_initial_def Let_def split: if_splits dest!: elephant_mid_sound)

lemma Elephant_sound:
  assumes "x \<in> Elephant_legal_moves b opp loc"
  shows "on_board x \<and> x \<noteq> loc \<and> (at b x = None \<or> x \<in> opp)"
proof -
  from assms obtain cur where "x \<in> elephant_initial b opp loc cur"
    "cur \<in> {(fst loc + 1, snd loc), (fst loc - 1, snd loc), (fst loc, snd loc + 1), (fst loc, snd loc - 1)}"
    by (auto simp: Elephant_legal_moves_def Let_def split: if_splits)
  then show ?thesis by (rule elephant_initial_sound)
qed

lemma RedSoldier_cases:
  assumes "x \<in> RedSoldier_legal_moves b opp loc"
  shows "(loc = (7, 3) \<and> x = (8, 4)) \<or> (loc = (7, 5) \<and> x = (8, 4)) \<or>
     (loc = (8, 4) \<and> (x = (9, 3) \<or> x = (9, 5))) \<or>
     x \<in> soldier_spot b opp (fst loc + 1, snd loc) \<or>
     x \<in> soldier_spot b opp (fst loc, snd loc + 1) \<or>
     x \<in> soldier_spot b opp (fst loc, snd loc - 1)"
  using assms
  by (simp add: RedSoldier_legal_moves_def Let_def split: if_splits)

lemma RedSoldier_sound:
  assumes "x \<in> RedSoldier_legal_moves b opp loc"
  shows "on_board x \<and> x \<noteq> loc"
  using RedSoldier_cases [OF assms]
  by (elim disjE conjE) (simp_all add: soldier_spot_iff on_board_def prod_eq_iff)

lemma BlueSoldier_cases:
  assumes "x \<in> BlueSoldier_legal_moves b opp loc"
  shows "(loc = (2, 3) \<and> x = (1, 4)) \<or> (loc = (2, 5) \<and> x = (1, 4)) \<or>
     (loc = (1, 4) \<and> (x = (0, 3) \<or> x = (0, 5))) \<or>
     x \<in> soldier_spot b opp (fst loc - 1, snd loc) \<or>
     x \<in> soldier_spot b opp (fst loc, snd loc + 1) \<or>
     x \<in> soldier_spot b opp (fst loc, snd loc - 1)"
  using assms
  by (simp add: BlueSoldier_legal_moves_def Let_def split: if_splits)

lemma BlueSoldier_sound:
  assumes "x \<in> BlueSoldier_legal_moves b opp loc"
  shows "on_board x \<and> x \<noteq> loc"
  using BlueSoldier_cases [OF assms]
  by (elim disjE conjE) (simp_all add: soldier_spot_iff on_board_def prod_eq_iff)

lemma ray_hit_self: "ray_hit c c d = Some 0"
  by (cases d; cases c) (simp_all add: ray_hit_def Let_def)

lemma ray_hit_step:
  "ray_hit x (step d cur) d \<noteq> None \<Longrightarrow> ray_hit x cur d \<noteq> None"
  by (cases d; cases cur; cases x) (simp_all add: ray_hit_def Let_def split: if_splits)

lemma ray_hit_step_None:
  "ray_hit x cur d = None \<Longrightarrow> ray_hit x (step d cur) d = None"
  using ray_hit_step [of x d cur] by (cases "ray_hit x (step d cur) d") auto

lemma ray_hit_first: "ray_hit loc (step d loc) d = None"
  by (cases d; cases loc) (simp_all add: ray_hit_def Let_def)

lemma chariot_ray_sound:
  "dir = Some d \<Longrightarrow> ray_hit loc cur d = None \<Longrightarrow> x \<in> chariot_search b opp loc cur dir \<Longrightarrow>
   ray_hit x cur d \<noteq> None \<and> on_board x \<and> (at b x = None \<or> x \<in> opp)"
proof (induction b opp loc cur dir rule: chariot_search.induct)
  case (1 b opp loc cur dir)
  from "1.prems"(2) have ne: "loc \<noteq> cur" using ray_hit_self [of cur d] by auto
  have nxt: "ray_hit loc (step d cur) d = None"
    using "1.prems"(2) by (rule ray_hit_step_None)
  from "1.prems"(3) have ob: "on_board cur"
    by (subst (asm) chariot_search.simps) (auto split: if_splits)
  show ?case
  proof (cases "at b cur = None \<and> cur \<notin> opp")
    case True
    with "1.prems" ne ob have
      "x = cur \<or> x \<in> chariot_search b opp loc (step (the dir) cur) dir"
      by (subst (asm) chariot_search.simps) (auto split: if_splits)
    then show ?thesis
    proof
      assume "x = cur"
      with True ob show ?thesis by (simp add: ray_hit_self)
    next
      assume x: "x \<in> chariot_search b opp loc (step (the dir) cur) dir"
      have d: "\<not> (diagonal dir \<and> \<not> in_red_fortress cur \<and> \<not> in_blue_fortress cur)"
        using "1.prems"(3) ob by (subst (asm) chariot_search.simps) (auto split: if_splits)
      have "ray_hit x (step d cur) d \<noteq> None \<and> on_board x \<and> (at b x = None \<or> x \<in> opp)"
        using "1.IH"(1) [of ] ob d ne True "1.prems"(1) nxt x by auto
      then show ?thesis using ray_hit_step by blast
    qed
  next
    case False
    with "1.prems" ne ob have "x = cur \<and> cur \<in> opp"
      by (subst (asm) chariot_search.simps) (auto split: if_splits)
    with ob show ?thesis by (simp add: ray_hit_self)
  qed
qed

lemma Chariot_sound:
  assumes "x \<in> Chariot_legal_moves b opp loc"
  shows "on_board x \<and> x \<noteq> loc \<and> (at b x = None \<or> x \<in> opp)"
proof -
  from assms obtain d where x: "x \<in> chariot_search b opp loc (step d loc) (Some d)"
    unfolding Chariot_legal_moves_def
    by (subst (asm) chariot_search.simps) (auto split: if_splits)
  from chariot_ray_sound [OF refl ray_hit_first x]
  have "ray_hit x (step d loc) d \<noteq> None" "on_board x" "at b x = None \<or> x \<in> opp" by auto
  moreover have "x \<noteq> loc" using \<open>ray_hit x (step d loc) d \<noteq> None\<close> ray_hit_first by metis
  ultimately show ?thesis by simp
qed

lemma cannon_ray_sound:
  "dir = Some d \<Longrightarrow> cannon_direction dir = d \<Longrightarrow> ray_hit loc cur d = None \<Longrightarrow>
   x \<in> cannon_search b opp positions loc cnt cur dir \<Longrightarrow>
   ray_hit x cur d \<noteq> None \<and> on_board x \<and> (at b x = None \<or> x \<in> opp)"
proof (induction b opp positions loc cnt cur dir rule: cannon_search.induct)
  case (1 b opp positions loc cnt cur dir)
  from "1.prems"(3) have ne: "cur \<noteq> loc" using ray_hit_self [of cur d] by auto
  have nxt: "ray_hit loc (step d cur) d = None"
    using "1.prems"(3) by (rule ray_hit_step_None)
  have dd: "Some (cannon_direction dir) = dir" "cannon_direction (Some d) = d"
    using "1.prems"(1,2) by auto
  from "1.prems"(4) have ob: "on_board cur"
    by (subst (asm) cannon_search.simps) (auto split: if_splits)
  from "1.prems"(4) have c1: "\<not> (cur \<noteq> loc \<and> at b cur \<noteq> None \<and> cur \<notin> positions)" "\<not> 1 < cnt"
    using ob by (subst (asm) cannon_search.simps, auto split: if_splits)+
  from "1.prems"(4) ob c1 ne have
    "(x = cur \<and> (at b cur = None \<or> cur \<in> opp)) \<or>
     (\<not> (cnt = 1 \<and> cur \<in> opp) \<and>
        ((cnt = 1 \<and> at b cur = None \<and> x \<in> cannon_search b opp positions loc cnt (step d cur) (Some d)) \<or>
         (\<not> (cnt = 1 \<and> at b cur = None) \<and> at b cur = None \<and> x \<in> cannon_search b opp positions loc cnt (step d cur) (Some d)) \<or>
         (\<not> (cnt = 1 \<and> at b cur = None) \<and> at b cur \<noteq> None \<and> cur \<in> positions \<and> x \<in> cannon_search b opp positions loc (cnt + 1) (step d cur) (Some d))))"
    by (subst (asm) cannon_search.simps) (auto simp: "1.prems"(2) split: if_splits)
  then consider
      (here) "x = cur" "at b cur = None \<or> cur \<in> opp"
    | (a) "\<not> (cnt = 1 \<and> cur \<in> opp)" "cnt = 1 \<and> at b cur = None"
          "x \<in> cannon_search b opp positions loc cnt (step d cur) (Some d)"
    | (b) "\<not> (cnt = 1 \<and> cur \<in> opp)" "\<not> (cnt = 1 \<and> at b cur = None)" "at b cur = None"
          "x \<in> cannon_search b opp positions loc cnt (step d cur) (Some d)"
    | (c) "\<not> (cnt = 1 \<and> cur \<in> opp)" "\<not> (cnt = 1 \<and> at b cur = None)" "at b cur \<noteq> None"
          "cur \<in> positions"
          "x \<in> cannon_search b opp positions loc (cnt + 1) (step d cur) (Some d)"
    by auto
  then have "x = cur \<and> (at b cur = None \<or> cur \<in> opp) \<or>
             ray_hit x (step d cur) d \<noteq> None \<and> on_board x \<and> (at b x = None \<or> x \<in> opp)"
  proof cases
    case here
    then show ?thesis by simp
  next
    case a
    have "ray_hit x (step d cur) d \<noteq> None \<and> on_board x \<and> (at b x = None \<or> x \<in> opp)"
      by (rule "1.IH"(1) [unfolded "1.prems"(2)])
         (use ob c1 a dd nxt in \<open>simp_all add: "1.prems"(2)\<close>)
    then show ?thesis by simp
  next
    case b
    have "ray_hit x (step d cur) d \<noteq> None \<and> on_board x \<and> (at b x = None \<or> x \<in> opp)"
      by (rule "1.IH"(2) [unfolded "1.prems"(2)])
         (use ob c1 b dd nxt in \<open>simp_all add: "1.prems"(2)\<close>)
    then show ?thesis by simp
  next
    case c
    have "ray_hit x (step d cur) d \<noteq> None \<and> on_board x \<and> (at b x = None \<or> x \<in> opp)"
      by (rule "1.IH"(3) [unfolded "1.prems"(2)])
         (use ob c1 c dd nxt in \<open>simp_all add: "1.prems"(2)\<close>)
    then show ?thesis by simp
  qed
  then show ?case using ob ray_hit_self [of cur d] ray_hit_step [of x d cur] by auto
qed

lemma cannon_diagonals_sound:
  "x \<in> cannon_diagonals positions loc \<Longrightarrow> on_board x \<and> x \<noteq> loc"
  by (auto simp: cannon_diagonals_def red_corners_def blue_corners_def on_board_def Let_def
           split: option.splits if_splits)

lemma Cannon_sound:
  assumes "x \<in> Cannon_legal_moves b h opp loc"
  shows "on_board x \<and> x \<noteq> loc \<and>
         (x \<in> cannon_diagonals (non_cannon_positions b h) loc \<or> at b x = None \<or> x \<in> opp)"
proof -
  let ?P = "non_cannon_positions b h"
  from assms have
    "x \<in> cannon_diagonals ?P loc \<or>
     (\<exists>d cnt. cannon_direction (Some d) = d \<and> x \<in> cannon_search b opp ?P loc cnt (step d loc) (Some d))"
    unfolding Cannon_legal_moves_def
    by (subst (asm) cannon_search.simps)
       (auto simp: cannon_direction_def split: if_splits)
  then show ?thesis
  proof
    assume "x \<in> cannon_diagonals ?P loc"
    then show ?thesis using cannon_diagonals_sound by blast
  next
    assume "\<exists>d cnt. cannon_direction (Some d) = d \<and>
              x \<in> cannon_search b opp ?P loc cnt (step d loc) (Some d)"
    then obtain d cnt where d: "cannon_direction (Some d) = d"
      and x: "x \<in> cannon_search b opp ?P loc cnt (step d loc) (Some d)" by blast
    from cannon_ray_sound [OF refl d ray_hit_first x]
    have r: "ray_hit x (step d loc) d \<noteq> None" "on_board x" "at b x = None \<or> x \<in> opp" by auto
    have "x \<noteq> loc" using r(1) ray_hit_first by metis
    with r show ?thesis by simp
  qed
qed

lemma legal_moves_sound:
  assumes "get_legal_moves b h opp p = Inr moves" and "x \<in> moves"
  shows "on_board x \<and> location p \<noteq> Some x"
proof -
  from assms(1) obtain loc where loc: "location p = Some loc"
    by (auto simp: get_legal_moves_def split: option.splits)
  have "on_board x \<and> x \<noteq> loc"
  proof (cases "pclass p")
    case BlueGeneral
    with assms loc show ?thesis
      using fortress_moves_sound [of x in_blue_fortress blue_diagonal_spots b opp loc]
      by (auto simp: get_legal_moves_def BlueGeneral_legal_moves_def in_fortress_on_board)
  next
    case RedGeneral
    with assms loc show ?thesis
      using fortress_moves_sound [of x in_red_fortress red_diagonal_spots b opp loc]
      by (auto simp: get_legal_moves_def RedGeneral_legal_moves_def in_fortress_on_board)
  next
    case BlueGuard
    with assms loc show ?thesis
      using fortress_moves_sound [of x in_blue_fortress blue_diagonal_spots b opp loc]
      by (auto simp: get_legal_moves_def BlueGuard_legal_moves_def in_fortress_on_board)
  next
    case RedGuard
    with assms loc show ?thesis
      using fortress_moves_sound [of x in_red_fortress red_diagonal_spots b opp loc]
      by (auto simp: get_legal_moves_def RedGuard_legal_moves_def in_fortress_on_board)
  next
    case Horse
    with assms loc show ?thesis
      using Horse_sound [of x b opp loc] by (auto simp: get_legal_moves_def)
  next
    case Elephant
    with assms loc show ?thesis
      using Elephant_sound [of x b opp loc] by (auto simp: get_legal_moves_def)
  next
    case Chariot
    with assms loc show ?thesis
      using Chariot_sound [of x b opp loc] by (auto simp: get_legal_moves_def)
  next
    case Cannon
    with assms loc show ?thesis
      using Cannon_sound [of x b h opp loc] by (auto simp: get_legal_moves_def)
  next
    case RedSoldier
    with assms loc show ?thesis
      using RedSoldier_sound [of x b opp loc] by (auto simp: get_legal_moves_def)
  next
    case BlueSoldier
    with assms loc show ?thesis
      using BlueSoldier_sound [of x b opp loc] by (auto simp: get_legal_moves_def)
  qed
  with loc show ?thesis by auto
qed

section \<open>Well-formed states and the simulation of a move\<close>

text \<open>
  The invariants of section 3 of the specification, as far as the code keeps them: the board has ten
  rows of nine cells; a piece on a cell is recorded at that cell and is in the list of its
  owner (\<open>cells_ok\<close>); a list has no piece twice and at most one general, and each of its
  pieces has the list's owner and stands on the board where it is recorded (\<open>listed_ok\<close>).
\<close>

definition board_dims :: "board \<Rightarrow> bool" where
  "board_dims b \<longleftrightarrow> length b = 10 \<and> (\<forall>row \<in> set b. length row = 9)"

lemma on_board_nat:
  "on_board c \<Longrightarrow> nat (fst c) < 10 \<and> nat (snd c) < 9"
  by (auto simp: on_board_def)

lemma on_board_nat_eq:
  "on_board c \<Longrightarrow> on_board c' \<Longrightarrow> nat (fst c) = nat (fst c') \<Longrightarrow> nat (snd c) = nat (snd c') \<Longrightarrow> c = c'"
  by (cases c; cases c') (auto simp: on_board_def)

lemma at_put:
  assumes "board_dims b" "on_board c" "on_board c'"
  shows "at (put b c v) c' = (if c' = c then v else at b c')"
proof -
  from assms have l: "nat (fst c) < length b" "nat (fst c') < length b"
    by (auto simp: board_dims_def dest: on_board_nat)
  then have "length (b ! nat (fst c)) = 9" using assms(1) by (auto simp: board_dims_def)
  then have l2: "nat (snd c) < length (b ! nat (fst c))" using assms(2) by (auto dest: on_board_nat)
  show ?thesis
  proof (cases "c' = c")
    case True
    with l l2 show ?thesis by (simp add: at_def put_def)
  next
    case False
    then have "nat (fst c) \<noteq> nat (fst c') \<or> nat (snd c) \<noteq> nat (snd c')"
      using on_board_nat_eq [OF assms(2,3)] by auto
    with False l l2 show ?thesis
      by (auto simp: at_def put_def nth_list_update)
  qed
qed

lemma board_dims_put: "board_dims b \<Longrightarrow> board_dims (put b c v)"
proof (cases "nat (fst c) < length b")
  case True
  assume "board_dims b"
  with True show ?thesis
    unfolding board_dims_def put_def
    by (auto dest!: subsetD [OF set_update_subset_insert])
next
  case False
  assume "board_dims b"
  with False show ?thesis by (simp add: put_def list_update_beyond)
qed

lemma board_eqI:
  assumes "board_dims b" "board_dims b'" "\<And>c. on_board c \<Longrightarrow> at b c = at b' c"
  shows "b = b'"
proof (rule nth_equalityI)
  show "length b = length b'" using assms(1,2) by (simp add: board_dims_def)
next
  fix i assume i: "i < length b"
  then have i10: "i < 10" using assms(1) by (simp add: board_dims_def)
  have lr: "length (b ! i) = 9" "length (b' ! i) = 9"
    using assms(1,2) i by (auto simp: board_dims_def)
  show "b ! i = b' ! i"
  proof (rule nth_equalityI)
    show "length (b ! i) = length (b' ! i)" using lr by simp
  next
    fix j assume "j < length (b ! i)"
    then have j9: "j < 9" using lr by simp
    have "on_board (int i, int j)" using i10 j9 by (simp add: on_board_def)
    from assms(3) [OF this] show "b ! i ! j = b' ! i ! j" by (simp add: at_def)
  qed
qed

lemma on_board_all_spots: "on_board c \<longleftrightarrow> c \<in> set all_spots"
proof -
  have "set all_spots = {0..9} \<times> {0..8}"
    unfolding all_spots_def by (auto simp: image_iff)
  then show ?thesis by (cases c) (auto simp: on_board_def)
qed


definition listed_ok :: "game \<Rightarrow> player \<Rightarrow> bool" where
  "listed_ok s player \<longleftrightarrow>
     distinct (get_pieces s player) \<and>
     length (filter (\<lambda>q. ptype (heap s ! q) = TGeneral) (get_pieces s player)) \<le> 1 \<and>
     (\<forall>q \<in> set (get_pieces s player).
        q < length (heap s) \<and> owner (heap s ! q) = player \<and>
        (case location (heap s ! q) of
           None \<Rightarrow> False
         | Some c \<Rightarrow> on_board c \<and> at (board s) c = Some q))"

definition cells_ok :: "game \<Rightarrow> bool" where
  "cells_ok s \<longleftrightarrow>
     (\<forall>c \<in> set all_spots.
        case at (board s) c of
          None \<Rightarrow> True
        | Some q \<Rightarrow>
            q < length (heap s) \<and> location (heap s ! q) = Some c \<and>
            q \<in> set (get_pieces s (owner (heap s ! q))))"

definition well_formed :: "game \<Rightarrow> bool" where
  "well_formed s \<longleftrightarrow>
     board_dims (board s) \<and> cells_ok s \<and> listed_ok s Red \<and> listed_ok s Blue"

lemma well_formed_new_game: "well_formed new_game"
  by code_simp

lemma cells_okD:
  assumes "cells_ok s" "on_board c" "at (board s) c = Some q"
  shows "q < length (heap s)" "location (heap s ! q) = Some c"
        "q \<in> set (get_pieces s (owner (heap s ! q)))"
  using assms by (auto simp: cells_ok_def on_board_all_spots split: option.splits)

lemma listed_okD:
  assumes "listed_ok s player" "q \<in> set (get_pieces s player)"
  shows "q < length (heap s)" "owner (heap s ! q) = player" "location (heap s ! q) \<noteq> None"
  using assms by (auto simp: listed_ok_def split: option.splits)

lemma all_legal_moves_total:
  "(\<forall>q \<in> set ps. location (h ! q) \<noteq> None) \<Longrightarrow> \<exists>ms. all_legal_moves b h opp ps acc = Inr ms"
proof (induction ps arbitrary: acc)
  case Nil
  then show ?case by simp
next
  case (Cons q ps)
  then obtain loc where "location (h ! q) = Some loc" by auto
  then obtain m where "get_legal_moves b h opp (h ! q) = Inr m"
    by (simp add: get_legal_moves_def)
  with Cons show ?case by simp
qed


lemma is_in_check_total:
  assumes "\<forall>q \<in> set (red_pieces s) \<union> set (blue_pieces s). location (heap s ! q) \<noteq> None"
  shows "\<exists>r. is_in_check s player = Inr r"
proof -
  obtain m1 where "all_legal_moves (board s) (heap s) (get_opposition_positions s Red)
                     (red_pieces s) {} = Inr m1"
    using all_legal_moves_total [of "red_pieces s" "heap s"] assms by blast
  moreover obtain m2 where "all_legal_moves (board s) (heap s) (get_opposition_positions s Blue)
                     (blue_pieces s) {} = Inr m2"
    using all_legal_moves_total [of "blue_pieces s" "heap s"] assms by blast
  ultimately show ?thesis by (simp add: is_in_check_def Let_def)
qed

lemma py_pos_on_board: "on_board c \<Longrightarrow> py_pos c = Inr c"
  by (cases c) (auto simp: py_pos_def cell_of_def on_board_def)

lemma cell_of_on_board: "on_board c \<Longrightarrow> cell_of c = c"
  by (cases c) (auto simp: cell_of_def on_board_def)

lemma location_collapse: "location r = l \<Longrightarrow> r\<lparr>location := l\<rparr> = r"
  by (cases r) simp

lemma board_restore_empty:
  assumes "board_dims b" "on_board f" "on_board t" "f \<noteq> t" "at b f = Some p" "at b t = None"
  shows "put (put (put (put b f None) t (Some p)) f (Some p)) t None = b"
  by (rule board_eqI) (use assms in \<open>auto simp: at_put board_dims_put\<close>)

lemma board_restore_capture:
  assumes "board_dims b" "on_board f" "on_board t" "f \<noteq> t" "at b f = Some p" "at b t = Some q"
  shows "put (put (put (put (put b f None) t None) t (Some p)) f (Some p)) t (Some q) = b"
  by (rule board_eqI) (use assms in \<open>auto simp: at_put board_dims_put\<close>)

lemma heap_restore_empty:
  assumes "p < length h" "location (h ! p) = Some f"
  shows "(h[p := (h ! p)\<lparr>location := Some t\<rparr>])
           [p := (h[p := (h ! p)\<lparr>location := Some t\<rparr>] ! p)\<lparr>location := Some f\<rparr>] = h"
  using assms by (simp add: location_collapse)

text \<open>The store during a simulated capture: the captured piece \<open>q\<close> has no location, the
  moving piece \<open>p\<close> is recorded at the destination.\<close>

definition sim_heap :: "heap \<Rightarrow> pid \<Rightarrow> pid \<Rightarrow> pos \<Rightarrow> heap" where
  "sim_heap h p q t =
     (let h1 = h[q := (h ! q)\<lparr>location := None\<rparr>]
      in h1[p := (h1 ! p)\<lparr>location := Some t\<rparr>])"

lemma heap_restore_capture:
  assumes "p < length h" "q < length h" "p \<noteq> q"
    "location (h ! p) = Some f" "location (h ! q) = Some t"
  shows "(let h2 = sim_heap h p q t;
              h3 = h2[p := (h2 ! p)\<lparr>location := Some f\<rparr>]
          in h3[q := (h3 ! q)\<lparr>location := Some t\<rparr>]) = h"
  using assms
  by (intro nth_equalityI)
     (auto simp: sim_heap_def Let_def nth_list_update location_collapse)

lemma sim_heap_nth:
  assumes "p < length h" "q < length h" "p \<noteq> q"
  shows "sim_heap h p q t ! i =
         (if i = p then (h ! p)\<lparr>location := Some t\<rparr>
          else if i = q then (h ! q)\<lparr>location := None\<rparr> else h ! i)"
  using assms by (auto simp: sim_heap_def Let_def nth_list_update)

text \<open>What a simulated capture leaves behind: the captured piece is back on the board, but
  at the end of its owner's list.\<close>

definition reappend :: "game \<Rightarrow> pid \<Rightarrow> game" where
  "reappend s q =
     (if owner (heap s ! q) = Blue then s\<lparr>blue_pieces := remove1 q (blue_pieces s) @ [q]\<rparr>
      else s\<lparr>red_pieces := remove1 q (red_pieces s) @ [q]\<rparr>)"

definition after_simulation :: "game \<Rightarrow> pos \<Rightarrow> game" where
  "after_simulation s t = (case at (board s) t of None \<Rightarrow> s | Some q \<Rightarrow> reappend s q)"

lemma simulate_empty:
  assumes wf: "well_formed s" and f: "on_board f" and t: "on_board t" and ft: "f \<noteq> t"
    and p: "at (board s) f = Some p" and e: "at (board s) t = None"
  shows "\<exists>in_check. leaves_in_check s f t = Inr (in_check, s)"
proof -
  let ?b = "board s" and ?h = "heap s"
  from wf have dims: "board_dims ?b" and cells: "cells_ok s"
    and red: "listed_ok s Red" and blue: "listed_ok s Blue"
    by (simp_all add: well_formed_def)
  from cells_okD [OF cells f p] have pl: "p < length ?h" and ploc: "location (?h ! p) = Some f"
    by simp_all
  define M where "M = s\<lparr>board := put (put ?b f None) t (Some p),
                          heap := ?h[p := (?h ! p)\<lparr>location := Some t\<rparr>]\<rparr>"
  have mp: "move_piece s f t = Inr (p, None, M)"
    using dims f t ft p e
    by (simp add: move_piece_def capture_def py_pos_on_board at_put board_dims_put
                  set_location_def Let_def M_def)
  have "\<forall>q \<in> set (red_pieces M) \<union> set (blue_pieces M). location (heap M ! q) \<noteq> None"
  proof
    fix q assume "q \<in> set (red_pieces M) \<union> set (blue_pieces M)"
    then have "q \<in> set (get_pieces s Red) \<or> q \<in> set (get_pieces s Blue)"
      by (auto simp: M_def get_pieces_def)
    then have "location (?h ! q) \<noteq> None" "q < length ?h"
      using listed_okD [OF red] listed_okD [OF blue] by auto
    then show "location (heap M ! q) \<noteq> None"
      using pl by (simp add: M_def nth_list_update)
  qed
  from is_in_check_total [OF this]
  obtain r where chk: "is_in_check M (owner (heap M ! p)) = Inr r" by blast
  have "restore M f t p None = s"
    using board_restore_empty [OF dims f t ft p e] heap_restore_empty [OF pl ploc, of t] f t
    by (simp add: restore_def set_location_def Let_def M_def cell_of_on_board)
  with mp chk show ?thesis by (simp add: leaves_in_check_def)
qed

lemma simulate_capture:
  assumes wf: "well_formed s" and f: "on_board f" and t: "on_board t" and ft: "f \<noteq> t"
    and p: "at (board s) f = Some p" and q: "at (board s) t = Some q"
  shows "\<exists>in_check. leaves_in_check s f t = Inr (in_check, reappend s q)"
proof -
  let ?b = "board s" and ?h = "heap s"
  from wf have dims: "board_dims ?b" and cells: "cells_ok s"
    and red: "listed_ok s Red" and blue: "listed_ok s Blue"
    by (simp_all add: well_formed_def)
  from cells_okD [OF cells f p] have pl: "p < length ?h" and ploc: "location (?h ! p) = Some f"
    by simp_all
  from cells_okD [OF cells t q] have ql: "q < length ?h" and qloc: "location (?h ! q) = Some t"
    and qin: "q \<in> set (get_pieces s (owner (?h ! q)))"
    by simp_all
  from ploc qloc ft have pq: "p \<noteq> q" by auto
  have qred: "q \<in> set (red_pieces s) \<longleftrightarrow> owner (?h ! q) = Red"
    using qin listed_okD(2) [OF red, of q] by (cases "owner (?h ! q)") (auto simp: get_pieces_def)
  have qblue: "q \<in> set (blue_pieces s) \<longleftrightarrow> owner (?h ! q) = Blue"
    using qin listed_okD(2) [OF blue, of q] by (cases "owner (?h ! q)") (auto simp: get_pieces_def)
  define B where "B = put (put (put ?b f None) t None) t (Some p)"
  define M where "M = s\<lparr>board := B, heap := sim_heap ?h p q t,
                          blue_pieces := (if owner (?h ! q) = Blue then remove1 q (blue_pieces s)
                                          else blue_pieces s),
                          red_pieces := (if owner (?h ! q) = Red then remove1 q (red_pieces s)
                                         else red_pieces s)\<rparr>"
  have mp: "move_piece s f t = Inr (p, Some q, M)"
    using dims f t ft p q qred qblue
    by (cases "owner (?h ! q)")
       (simp_all add: move_piece_def capture_def py_pos_on_board at_put board_dims_put
                  set_location_def Let_def M_def B_def sim_heap_def)
  have dr: "distinct (red_pieces s)" and db: "distinct (blue_pieces s)"
    using red blue by (simp_all add: listed_ok_def get_pieces_def)
  have "\<forall>r \<in> set (red_pieces M) \<union> set (blue_pieces M). location (heap M ! r) \<noteq> None"
  proof
    fix r assume r: "r \<in> set (red_pieces M) \<union> set (blue_pieces M)"
    then have rq: "r \<noteq> q"
      using qred qblue dr db by (cases "owner (?h ! q)") (auto simp: M_def split: if_splits)
    from r have "r \<in> set (get_pieces s Red) \<or> r \<in> set (get_pieces s Blue)"
      by (auto simp: M_def get_pieces_def split: if_splits dest: subsetD [OF set_remove1_subset])
    then have "location (?h ! r) \<noteq> None"
      using listed_okD [OF red] listed_okD [OF blue] by auto
    then show "location (heap M ! r) \<noteq> None"
      using rq by (simp add: M_def sim_heap_nth [OF pl ql pq])
  qed
  from is_in_check_total [OF this]
  obtain r where chk: "is_in_check M (owner (heap M ! p)) = Inr r" by blast
  have "restore M f t p (Some q) = reappend s q"
    using board_restore_capture [OF dims f t ft p q]
          heap_restore_capture [OF pl ql pq ploc qloc] f t
    by (cases "owner (?h ! q)")
       (simp_all add: restore_def set_location_def Let_def M_def B_def cell_of_on_board
                  reappend_def)
  with mp chk show ?thesis by (simp add: leaves_in_check_def)
qed

lemma simulate_restores:
  assumes "well_formed s" "on_board f" "on_board t" "f \<noteq> t" "at (board s) f = Some p"
  shows "\<exists>in_check. leaves_in_check s f t = Inr (in_check, after_simulation s t)"
  using simulate_empty [OF assms] simulate_capture [OF assms]
  by (cases "at (board s) t") (simp_all add: after_simulation_def)

lemma filter_length_mset:
  "mset xs = mset ys \<Longrightarrow> length (filter P xs) = length (filter P ys)"
proof -
  assume "mset xs = mset ys"
  then have "filter_mset P (mset xs) = filter_mset P (mset ys)" by simp
  then have "mset (filter P xs) = mset (filter P ys)" by simp
  then show ?thesis by (metis size_mset)
qed

lemma listed_ok_perm:
  assumes "board s' = board s" "heap s' = heap s"
    "mset (get_pieces s' player) = mset (get_pieces s player)"
  shows "listed_ok s' player = listed_ok s player"
proof -
  have "distinct (get_pieces s' player) = distinct (get_pieces s player)"
    using assms(3) by (metis mset_eq_imp_distinct_iff)
  moreover have "set (get_pieces s' player) = set (get_pieces s player)"
    using assms(3) by (metis mset_eq_setD)
  moreover have "length (filter (\<lambda>q. ptype (heap s ! q) = TGeneral) (get_pieces s' player))
               = length (filter (\<lambda>q. ptype (heap s ! q) = TGeneral) (get_pieces s player))"
    using assms(3) by (rule filter_length_mset)
  ultimately show ?thesis
    unfolding listed_ok_def assms(1,2) by (simp cong: option.case_cong)
qed

lemma well_formed_perm:
  assumes "board s' = board s" "heap s' = heap s"
    "mset (red_pieces s') = mset (red_pieces s)" "mset (blue_pieces s') = mset (blue_pieces s)"
  shows "well_formed s' = well_formed s"
proof -
  have m: "mset (get_pieces s' player) = mset (get_pieces s player)" for player
    using assms(3,4) by (simp add: get_pieces_def)
  have "set (get_pieces s' player) = set (get_pieces s player)" for player
    using m [of player] by (metis mset_eq_setD)
  then have "cells_ok s' = cells_ok s"
    unfolding cells_ok_def assms(1,2) by (simp cong: option.case_cong)
  with listed_ok_perm [OF assms(1,2) m] assms(1) show ?thesis
    by (simp add: well_formed_def)
qed

lemma mset_reappend: "q \<in> set xs \<Longrightarrow> mset (remove1 q xs @ [q]) = mset xs"
  by simp

lemma reappend_same:
  "board (reappend s q) = board s" "heap (reappend s q) = heap s"
  "game_state (reappend s q) = game_state s" "current_turn (reappend s q) = current_turn s"
  by (simp_all add: reappend_def)

lemma reappend_mset:
  assumes "q \<in> set (get_pieces s (owner (heap s ! q)))"
  shows "mset (red_pieces (reappend s q)) = mset (red_pieces s)"
        "mset (blue_pieces (reappend s q)) = mset (blue_pieces s)"
  using assms by (cases "owner (heap s ! q)"; simp add: reappend_def get_pieces_def)+

lemma after_simulation_same:
  "board (after_simulation s t) = board s" "heap (after_simulation s t) = heap s"
  "game_state (after_simulation s t) = game_state s"
  "current_turn (after_simulation s t) = current_turn s"
  by (simp_all add: after_simulation_def reappend_same split: option.splits)

lemma after_simulation_mset:
  assumes "well_formed s" "on_board t"
  shows "mset (red_pieces (after_simulation s t)) = mset (red_pieces s)"
        "mset (blue_pieces (after_simulation s t)) = mset (blue_pieces s)"
proof -
  from assms have c: "cells_ok s" by (simp add: well_formed_def)
  show "mset (red_pieces (after_simulation s t)) = mset (red_pieces s)"
    using cells_okD(3) [OF c assms(2)] reappend_mset(1)
    by (auto simp: after_simulation_def split: option.splits)
  show "mset (blue_pieces (after_simulation s t)) = mset (blue_pieces s)"
    using cells_okD(3) [OF c assms(2)] reappend_mset(2)
    by (auto simp: after_simulation_def split: option.splits)
qed

lemma after_simulation_wf:
  assumes "well_formed s" "on_board t"
  shows "well_formed (after_simulation s t)"
  using well_formed_perm [OF after_simulation_same(1,2) after_simulation_mset [OF assms]] assms(1)
  by simp

lemma translate_column:
  "translate_position move = Inr p \<Longrightarrow> 0 \<le> snd p \<and> snd p < 9"
  by (auto simp: translate_position_def translate_def split: sum.splits list.splits option.splits if_splits)

lemma get_item_Some:
  "get_item b p = Inr v \<Longrightarrow> on_board (cell_of p) \<and> v = at b (cell_of p)"
  by (auto simp: get_item_def py_pos_def split: if_splits)

lemma cell_of_nonneg: "0 \<le> fst p \<Longrightarrow> 0 \<le> snd p \<Longrightarrow> cell_of p = p"
  by (cases p) (simp add: cell_of_def)

lemma commit_move_accepts:
  assumes "leaves_in_check s f t = Inr (False, s1)"
  shows "commit_move order s player f t \<noteq> Inr (False, s')"
proof -
  have "commit_move order s player f t =
        (case update_board s1 f t of
           Inl e \<Rightarrow> Inl e
         | Inr s2 \<Rightarrow>
             (case is_in_check s2 (get_opposition s2) of
                Inl e \<Rightarrow> Inl (e, s2)
              | Inr False \<Rightarrow> Inr (True, change_turn s2)
              | Inr True \<Rightarrow>
                  (case is_check_mate order s2 (get_opposition s2) of
                     Inl e \<Rightarrow> Inl e
                   | Inr (mate, s3) \<Rightarrow>
                       if mate then Inr (True, set_game_state s3 player)
                       else Inr (True, change_turn s3))))"
    using assms by (simp add: commit_move_def)
  then show ?thesis
    by (simp split: sum.splits bool.splits prod.splits)
qed

lemma commit_move_rejected:
  assumes wf: "well_formed s" and f: "on_board f" and p: "at (board s) f = Some p"
    and m: "get_legal_moves (board s) (heap s) opp (heap s ! p) = Inr moves" and t: "t \<in> moves"
    and c: "commit_move order s player f t = Inr (False, s')"
  shows "on_board t \<and> s' = after_simulation s t"
proof -
  from wf have cells: "cells_ok s" by (simp add: well_formed_def)
  from cells_okD(2) [OF cells f p] have "location (heap s ! p) = Some f" .
  with legal_moves_sound [OF m t] have ot: "on_board t" and ft: "f \<noteq> t" by auto
  from simulate_restores [OF wf f ot ft p] obtain in_check where
    l: "leaves_in_check s f t = Inr (in_check, after_simulation s t)" by blast
  have "in_check"
  proof (rule ccontr)
    assume "\<not> in_check"
    with l have "leaves_in_check s f t = Inr (False, after_simulation s t)" by simp
    from commit_move_accepts [OF this] c show False by blast
  qed
  with l c have "s' = after_simulation s t" by (simp add: commit_move_def)
  with ot show ?thesis by simp
qed

lemma make_move_steps:
  assumes "translate_position move_to = Inr tp" "translate_position move_from = Inr fp"
    "game_state s = UNFINISHED" "get_item (board s) fp = Inr (Some p)"
    "owner (heap s ! p) = current_turn s"
  shows "make_move order s move_from move_to =
         (case (if move_from = move_to then is_in_check s (current_turn s) else Inr True) of
            Inl e \<Rightarrow> Inl (e, s)
          | Inr in_check \<Rightarrow>
              if move_from = move_to \<and> \<not> in_check then Inr (True, change_turn s)
              else
                (case get_legal_moves (board s) (heap s)
                        (get_opposition_positions s (current_turn s)) (heap s ! p) of
                   Inl e \<Rightarrow> Inl (e, s)
                 | Inr moves \<Rightarrow>
                     if tp \<notin> moves then Inr (False, s)
                     else commit_move order s (current_turn s) fp tp))"
  using assms by (simp add: make_move_def Let_def)

lemma make_move_rejected:
  assumes wf: "well_formed s" and mm: "make_move order s move_from move_to = Inr (False, s')"
    and tr: "translate_position move_from = Inr fp" and nn: "0 \<le> fst fp"
  shows "s' = s \<or> (\<exists>t. on_board t \<and> s' = after_simulation s t)"
proof -
  from mm obtain tp where tt: "translate_position move_to = Inr tp"
    by (cases "translate_position move_to") (simp_all add: make_move_def)
  show ?thesis
  proof (cases "game_state s = UNFINISHED")
    case False
    with mm tt tr show ?thesis by (simp add: make_move_def)
  next
    case True
    note unfinished = this
    from mm tt tr unfinished obtain cell where gi: "get_item (board s) fp = Inr cell"
      by (cases "get_item (board s) fp") (simp_all add: make_move_def)
    show ?thesis
    proof (cases cell)
      case None
      with mm tt tr unfinished gi show ?thesis by (simp add: make_move_def)
    next
      case (Some p)
      from get_item_Some [OF gi] translate_column [OF tr] nn Some
      have f: "on_board fp" and p: "at (board s) fp = Some p"
        by (simp_all add: cell_of_nonneg)
      show ?thesis
      proof (cases "owner (heap s ! p) = current_turn s")
        case False
        with mm tt tr unfinished gi Some show ?thesis by (simp add: make_move_def)
      next
        case True
        note st = make_move_steps [OF tt tr unfinished gi [unfolded Some] True, of order]
        from mm st obtain in_check where
          "(if move_from = move_to then is_in_check s (current_turn s) else Inr True)
             = Inr in_check"
          by (cases "if move_from = move_to then is_in_check s (current_turn s) else Inr True")
             simp_all
        with mm st have pass: "\<not> (move_from = move_to \<and> \<not> in_check)"
          and rest: "(case get_legal_moves (board s) (heap s)
                        (get_opposition_positions s (current_turn s)) (heap s ! p) of
                   Inl e \<Rightarrow> Inl (e, s)
                 | Inr moves \<Rightarrow>
                     if tp \<notin> moves then Inr (False, s)
                     else commit_move order s (current_turn s) fp tp) = Inr (False, s')"
          by (auto split: if_splits)
        from rest obtain moves where
          m: "get_legal_moves (board s) (heap s) (get_opposition_positions s (current_turn s))
                (heap s ! p) = Inr moves"
          by (cases "get_legal_moves (board s) (heap s)
                (get_opposition_positions s (current_turn s)) (heap s ! p)") simp_all
        show ?thesis
        proof (cases "tp \<in> moves")
          case False
          with rest m show ?thesis by simp
        next
          case True
          with rest m have "commit_move order s (current_turn s) fp tp = Inr (False, s')"
            by simp
          from commit_move_rejected [OF wf f p m True this] show ?thesis by blast
        qed
      qed
    qed
  qed
qed

lemma game_over_move:
  assumes "game_state s \<noteq> UNFINISHED"
  shows "make_move order s move_from move_to =
         (case translate_position move_to of
            Inl e \<Rightarrow> Inl (e, s)
          | Inr to_position \<Rightarrow>
              (case translate_position move_from of
                 Inl e \<Rightarrow> Inl (e, s)
               | Inr from_position \<Rightarrow> Inr (False, s)))"
  using assms
  by (cases "translate_position move_to"; cases "translate_position move_from")
     (simp_all add: make_move_def)

lemma game_over_play:
  assumes "game_state s \<noteq> UNFINISHED"
  shows "snd (play order s calls) = s \<and>
         (\<forall>r \<in> set (fst (play order s calls)). r \<noteq> Inr True)"
proof (induction calls)
  case Nil
  then show ?case by simp
next
  case (Cons c calls)
  obtain a b where c: "c = (a, b)" by (cases c)
  obtain results s'' where p: "play order s calls = (results, s'')"
    by (cases "play order s calls")
  from game_over_move [OF assms, of order a b]
  consider "make_move order s a b = Inr (False, s)" | e where "make_move order s a b = Inl (e, s)"
    by (cases "translate_position b"; cases "translate_position a") simp_all
  then show ?case
  proof cases
    case 1
    with Cons c p show ?thesis by simp
  next
    case 2
    with c show ?thesis by simp
  qed
qed

text \<open>The translation raises nothing but KeyError and ValueError, so a call on a finished
  game returns False or raises one of the two, and leaves the state as it was.\<close>

lemma other_turn: "(if t = Blue then Red else Blue) = other t"
  by (cases t) simp_all

lemma py_digits_error: "py_digits acc str = Inl e \<Longrightarrow> e = ValueError"
  by (induction acc str rule: py_digits.induct) (auto split: if_splits list.splits)

lemma py_int_error: "py_int str = Inl e \<Longrightarrow> e = ValueError"
  by (auto simp: py_int_def py_unsigned_def split: list.splits if_splits sum.splits
           dest: py_digits_error)

lemma translate_position_errors:
  assumes "translate_position move = Inl e"
  shows "e = KeyError \<or> e = ValueError"
proof (cases "py_int (drop 1 move)")
  case (Inl e')
  with assms py_int_error [OF Inl] show ?thesis by (simp add: translate_position_def)
next
  case (Inr rank)
  then have "move \<noteq> []" by (auto simp: py_int_def)
  with assms Inr show ?thesis
    by (auto simp: translate_position_def split: list.splits option.splits)
qed

lemma game_over_results:
  assumes "game_state s \<noteq> UNFINISHED"
  shows "make_move order s move_from move_to
           \<in> {Inr (False, s), Inl (KeyError, s), Inl (ValueError, s)}"
proof (cases "translate_position move_to")
  case (Inl e)
  with translate_position_errors [OF Inl] game_over_move [OF assms, of order move_from move_to]
  show ?thesis by auto
next
  case to: (Inr tp)
  show ?thesis
  proof (cases "translate_position move_from")
    case (Inl e)
    with to translate_position_errors [OF Inl]
      game_over_move [OF assms, of order move_from move_to]
    show ?thesis by auto
  next
    case (Inr fp)
    with to game_over_move [OF assms, of order move_from move_to] show ?thesis by simp
  qed
qed

text \<open>Two states that differ at most in the order of the two piece lists.\<close>

definition same_up_to_order :: "game \<Rightarrow> game \<Rightarrow> bool" where
  "same_up_to_order s s' \<longleftrightarrow>
     board s' = board s \<and> heap s' = heap s \<and> game_state s' = game_state s \<and>
     current_turn s' = current_turn s \<and>
     mset (red_pieces s') = mset (red_pieces s) \<and> mset (blue_pieces s') = mset (blue_pieces s)"

lemma after_simulation_order:
  "well_formed s \<Longrightarrow> on_board t \<Longrightarrow> same_up_to_order s (after_simulation s t)"
  by (simp add: same_up_to_order_def after_simulation_same after_simulation_mset)

lemma after_simulation_empty: "at (board s) t = None \<Longrightarrow> after_simulation s t = s"
  by (simp add: after_simulation_def)

section \<open>Rejected moves and simulated moves\<close>

text \<open>
  What a simulation does restore. On a well-formed state, a call of \<open>leaves_in_check\<close> with an
  occupied origin cell and a different destination cell, both on the board, returns, and a
  call of \<open>make_move\<close> that returns False and whose origin has rank 1 or more leaves a state
  with the same board grid, game state, current turn and recorded position of every piece,
  and with the same members in both piece collections.
\<close>

lemma simulation_keeps_members:
  assumes "well_formed s"
  shows "(on_board f \<longrightarrow> on_board t \<longrightarrow> f \<noteq> t \<longrightarrow> at (board s) f \<noteq> None \<longrightarrow>
            (\<exists>in_check s'. leaves_in_check s f t = Inr (in_check, s') \<and>
               same_up_to_order s s' \<and> (at (board s) t = None \<longrightarrow> s' = s))) \<and>
         (translate_position move_from = Inr fp \<longrightarrow> 0 \<le> fst fp \<longrightarrow>
            make_move order s move_from move_to = Inr (False, s'') \<longrightarrow>
            same_up_to_order s s'')"
proof (intro conjI impI)
  assume a: "on_board f" "on_board t" "f \<noteq> t" "at (board s) f \<noteq> None"
  then obtain p where "at (board s) f = Some p" by auto
  from simulate_restores [OF assms a(1-3) this] obtain in_check where
    "leaves_in_check s f t = Inr (in_check, after_simulation s t)" by blast
  moreover have "same_up_to_order s (after_simulation s t)"
    using assms a(2) by (rule after_simulation_order)
  moreover have "at (board s) t = None \<longrightarrow> after_simulation s t = s"
    by (simp add: after_simulation_empty)
  ultimately show "\<exists>in_check s'. leaves_in_check s f t = Inr (in_check, s') \<and>
               same_up_to_order s s' \<and> (at (board s) t = None \<longrightarrow> s' = s)"
    by (intro exI [of _ in_check] exI [of _ "after_simulation s t"]) simp
next
  assume "translate_position move_from = Inr fp" "0 \<le> fst fp"
    "make_move order s move_from move_to = Inr (False, s'')"
  from make_move_rejected [OF assms this(3,1,2)]
  show "same_up_to_order s s''"
    using after_simulation_order [OF assms] by (auto simp: same_up_to_order_def)
qed

lemma reorder_by_rejected_move:
  "(let s = after_calls [(''a7'', ''a6''), (''a4'', ''a5''), (''c7'', ''c7''), (''i4'', ''h4''),
                         (''c7'', ''c7''), (''i1'', ''i7''), (''c7'', ''c7''), (''i7'', ''i9'')]
    in well_formed s \<and> game_state s = UNFINISHED \<and> current_turn s = Blue \<and>
       is_in_check s Blue = Inr True \<and>
       red_pieces s = [16, 17, 18, 19, 20, 21, 22, 23, 24, 25, 26, 27, 28, 29, 30, 31] \<and>
       (case make_move row_major s ''a6'' ''a5'' of
          Inl e \<Rightarrow> False
        | Inr (result, s') \<Rightarrow>
            \<not> result \<and> board s' = board s \<and> heap s' = heap s \<and>
            blue_pieces s' = blue_pieces s \<and>
            red_pieces s' = [16, 17, 18, 19, 20, 21, 22, 23, 24, 25, 26, 28, 29, 30, 31, 27]))"
  by code_simp

lemma verdict_before_simulation:
  "(let s = after_calls [(''c10'', ''d8''), (''i4'', ''h4''), (''b8'', ''f8''), (''i1'', ''i7''),
                         (''e9'', ''e10''), (''i7'', ''i10''), (''f10'', ''e9''),
                         (''i10'', ''h10''), (''a7'', ''a7'')]
    in well_formed s \<and> game_state s = UNFINISHED \<and> current_turn s = Red \<and>
       blue_pieces s = [0, 1, 2, 3, 4, 5, 6, 8, 10, 11, 12, 13, 14] \<and>
       map_sum fst (\<lambda>(result, s'). (result, game_state s'))
         (make_move row_major s ''h10'' ''g10'') = Inr (True, RED_WON))"
  by code_simp

lemma verdict_after_simulation:
  "(let s = after_calls [(''c10'', ''d8''), (''i4'', ''h4''), (''b8'', ''f8''), (''i1'', ''i7''),
                         (''e9'', ''e10''), (''i7'', ''i10''), (''f10'', ''e9''),
                         (''i10'', ''h10''), (''a7'', ''a7'')]
    in case leaves_in_check s (7, 5) (9, 3) of
         Inl e \<Rightarrow> False
       | Inr (in_check, s') \<Rightarrow>
           board s' = board s \<and> heap s' = heap s \<and> red_pieces s' = red_pieces s \<and>
           game_state s' = game_state s \<and> current_turn s' = current_turn s \<and>
           blue_pieces s' = [0, 2, 3, 4, 5, 6, 8, 10, 11, 12, 13, 14, 1] \<and>
           map_sum fst (\<lambda>(result, s''). (result, game_state s''))
             (make_move row_major s' ''h10'' ''g10'') = Inr (True, UNFINISHED))"
  by code_simp

lemma negative_rank_rejected:
  "(let s = after_calls [(''a7'', ''b7''), (''a4'', ''a4''), (''a10'', ''a4''), (''c4'', ''c4''),
                         (''a4'', ''a2'')]
    in well_formed s \<and> game_state s = UNFINISHED \<and> current_turn s = Red \<and>
       translate_position ''c-6'' = Inr (- 7, 2) \<and>
       at (board s) (3, 2) = Some 28 \<and> location (heap s ! 28) = Some (3, 2) \<and>
       (case make_move row_major s ''c-6'' ''c5'' of
          Inl e \<Rightarrow> False
        | Inr (result, s') \<Rightarrow>
            \<not> result \<and> board s' = board s \<and> location (heap s' ! 28) = Some (- 7, 2)))"
  by code_simp

text \<open>
  C1: every call of \<open>leaves_in_check\<close> and every \<open>make_move\<close> call that returns False leaves
  the board grid, the game state, the turn, both piece collections, insertion order
  included, and every piece's recorded position as they were before the call. The docstring
  of \<open>leaves_in_check\<close> says that it reverses the move "by putting all pieces back to where
  they were prior to the check", and that of \<open>make_move\<close> that "move is not made". The code
  puts a piece captured in the simulation back with \<open>list.append\<close>, at the end of its owner's
  list, and it writes \<open>move_from\<close> back into the moved piece as it was given.

  \<^item> Blue plays a7 to a6, red a4 to a5, and red's chariot goes by i7 to i9 and gives check,
    blue passing with c7 to c7 meanwhile. Blue's call a6 to a5, the soldier taking the red
    soldier 27, leaves blue in check and returns False; the red soldier was the twelfth of
    red's sixteen pieces before the call and is the last one after it.

  \<^item> The order matters to later calls, because \<open>is_check_mate\<close> iterates a list that the
    simulations change. In the state before the last call of the game of section Checkmate
    the call h10 to g10 sets the game state to RED_WON; after one call of
    \<open>leaves_in_check\<close> on that state, for the blue cannon's jump from (7, 5) onto the guard on
    (9, 3), which moves that guard from the second to the last place of blue's list and
    changes nothing else, the same call h10 to g10 leaves the game UNFINISHED.

  \<^item> The rank -6 gives the row index -7, which Python counts from the end of the board: the
    row of c4. After a7 to b7, a pass, a10 to a4, a pass and a4 to a2 red is in check; the
    call c-6 to c5 moves the red soldier on (3, 2) in the simulation, returns False, and
    leaves that soldier recorded at (-7, 2).
\<close>

theorem simulation_does_not_restore:
  "(let s = after_calls [(''a7'', ''a6''), (''a4'', ''a5''), (''c7'', ''c7''), (''i4'', ''h4''),
                         (''c7'', ''c7''), (''i1'', ''i7''), (''c7'', ''c7''), (''i7'', ''i9'')]
    in well_formed s \<and> game_state s = UNFINISHED \<and> current_turn s = Blue \<and>
       is_in_check s Blue = Inr True \<and>
       red_pieces s = [16, 17, 18, 19, 20, 21, 22, 23, 24, 25, 26, 27, 28, 29, 30, 31] \<and>
       (case make_move row_major s ''a6'' ''a5'' of
          Inl e \<Rightarrow> False
        | Inr (result, s') \<Rightarrow>
            \<not> result \<and> board s' = board s \<and> heap s' = heap s \<and>
            blue_pieces s' = blue_pieces s \<and>
            red_pieces s' = [16, 17, 18, 19, 20, 21, 22, 23, 24, 25, 26, 28, 29, 30, 31, 27])) \<and>
   (let s = after_calls [(''c10'', ''d8''), (''i4'', ''h4''), (''b8'', ''f8''), (''i1'', ''i7''),
                         (''e9'', ''e10''), (''i7'', ''i10''), (''f10'', ''e9''),
                         (''i10'', ''h10''), (''a7'', ''a7'')]
    in well_formed s \<and> game_state s = UNFINISHED \<and> current_turn s = Red \<and>
       blue_pieces s = [0, 1, 2, 3, 4, 5, 6, 8, 10, 11, 12, 13, 14] \<and>
       map_sum fst (\<lambda>(result, s'). (result, game_state s'))
         (make_move row_major s ''h10'' ''g10'') = Inr (True, RED_WON)) \<and>
   (let s = after_calls [(''c10'', ''d8''), (''i4'', ''h4''), (''b8'', ''f8''), (''i1'', ''i7''),
                         (''e9'', ''e10''), (''i7'', ''i10''), (''f10'', ''e9''),
                         (''i10'', ''h10''), (''a7'', ''a7'')]
    in case leaves_in_check s (7, 5) (9, 3) of
         Inl e \<Rightarrow> False
       | Inr (in_check, s') \<Rightarrow>
           board s' = board s \<and> heap s' = heap s \<and> red_pieces s' = red_pieces s \<and>
           game_state s' = game_state s \<and> current_turn s' = current_turn s \<and>
           blue_pieces s' = [0, 2, 3, 4, 5, 6, 8, 10, 11, 12, 13, 14, 1] \<and>
           map_sum fst (\<lambda>(result, s''). (result, game_state s''))
             (make_move row_major s' ''h10'' ''g10'') = Inr (True, UNFINISHED)) \<and>
   (let s = after_calls [(''a7'', ''b7''), (''a4'', ''a4''), (''a10'', ''a4''), (''c4'', ''c4''),
                         (''a4'', ''a2'')]
    in well_formed s \<and> game_state s = UNFINISHED \<and> current_turn s = Red \<and>
       translate_position ''c-6'' = Inr (- 7, 2) \<and>
       at (board s) (3, 2) = Some 28 \<and> location (heap s ! 28) = Some (3, 2) \<and>
       (case make_move row_major s ''c-6'' ''c5'' of
          Inl e \<Rightarrow> False
        | Inr (result, s') \<Rightarrow>
            \<not> result \<and> board s' = board s \<and> location (heap s' ! 28) = Some (- 7, 2)))"
  by (intro conjI reorder_by_rejected_move verdict_before_simulation verdict_after_simulation
        negative_rank_rejected)

section \<open>Passing the turn\<close>

text \<open>
  C6 (as stated): with game state UNFINISHED and an origin cell holding a piece of the
  current player, a \<open>make_move\<close> call whose origin equals its destination returns True and
  advances the turn if and only if that player's general is not in check. In a new game
  a7 and a07 both translate to (6, 0), which holds a blue soldier, it is blue's turn and
  blue's general is not in check; the call a7 to a07 returns False.
\<close>

theorem pass_move_counterexample:
  "game_state new_game = UNFINISHED \<and> current_turn new_game = Blue \<and>
   translate_position ''a7'' = Inr (6, 0) \<and> translate_position ''a07'' = Inr (6, 0) \<and>
   map_option (\<lambda>q. owner (heap new_game ! q)) (at (board new_game) (6, 0)) = Some Blue \<and>
   is_in_check new_game Blue = Inr False \<and>
   make_move row_major new_game ''a7'' ''a07'' = Inr (False, new_game)"
  by code_simp

text \<open>
  C6 (amended): in a well-formed state with game state UNFINISHED and an origin cell holding
  a piece of the current player, the check test on that player returns, and a \<open>make_move\<close>
  call whose destination string denotes the cell of the origin returns True and hands the
  turn to the other player if and only if the two position strings are identical and that
  player's general is not in check; otherwise it returns False and the turn stays. In both
  cases the board grid, the pieces, the piece collections and the game state are as they
  were. (The test of the source is \<open>move_from == move_to\<close> on the two strings as given; its
  docstring calls these arguments the positions.)
\<close>

theorem pass_move:
  assumes wf: "well_formed s" and u: "game_state s = UNFINISHED"
    and tf: "translate_position move_from = Inr fp"
    and tt: "translate_position move_to = Inr tp"
    and same: "cell_of tp = cell_of fp"
    and gi: "get_item (board s) fp = Inr (Some p)"
    and own: "owner (heap s ! p) = current_turn s"
  shows "\<exists>in_check. is_in_check s (current_turn s) = Inr in_check \<and>
           (if move_from = move_to \<and> \<not> in_check
            then make_move order s move_from move_to
                   = Inr (True, s\<lparr>current_turn := other (current_turn s)\<rparr>)
            else make_move order s move_from move_to = Inr (False, s))"
proof -
  from wf have cells: "cells_ok s" and red: "listed_ok s Red" and blue: "listed_ok s Blue"
    by (simp_all add: well_formed_def)
  have "\<forall>q \<in> set (red_pieces s) \<union> set (blue_pieces s). location (heap s ! q) \<noteq> None"
    using listed_okD(3) [OF red] listed_okD(3) [OF blue] by (auto simp: get_pieces_def)
  from is_in_check_total [OF this] obtain in_check where
    chk: "is_in_check s (current_turn s) = Inr in_check" by blast
  from get_item_Some [OF gi] have oc: "on_board (cell_of fp)"
    and p: "at (board s) (cell_of fp) = Some p" by simp_all
  from cells_okD(2) [OF cells oc p] have loc: "location (heap s ! p) = Some (cell_of fp)" .
  then obtain moves where
    m: "get_legal_moves (board s) (heap s) (get_opposition_positions s (current_turn s))
          (heap s ! p) = Inr moves"
    by (simp add: get_legal_moves_def)
  have n: "tp \<notin> moves"
  proof
    assume "tp \<in> moves"
    from legal_moves_sound [OF m this] loc have "on_board tp" "cell_of fp \<noteq> tp" by auto
    with same show False by (simp add: cell_of_on_board)
  qed
  have mm: "make_move order s move_from move_to =
          (if move_from = move_to \<and> \<not> in_check then Inr (True, change_turn s)
           else Inr (False, s))"
    using chk m n tf tt gi own u by (simp add: make_move_def Let_def)
  have ct: "change_turn s = s\<lparr>current_turn := other (current_turn s)\<rparr>"
    by (simp add: change_turn_def other_turn)
  have "if move_from = move_to \<and> \<not> in_check
            then make_move order s move_from move_to
                   = Inr (True, s\<lparr>current_turn := other (current_turn s)\<rparr>)
            else make_move order s move_from move_to = Inr (False, s)"
  proof (cases "move_from = move_to \<and> \<not> in_check")
    case True
    show ?thesis
      unfolding if_P [OF True] using mm [unfolded if_P [OF True]] ct by simp
  next
    case False
    show ?thesis
      unfolding if_not_P [OF False] by (rule mm [unfolded if_not_P [OF False]])
  qed
  with chk show ?thesis by blast
qed

text \<open>In a new game blue is not in check: a7 to a7 passes the turn, and a7 to a-3, the same
  cell counted from the end of the board, returns False. After a7 to b7, a pass, a10 to a4, a
  pass and a4 to a2 red is in check, and red's call c4 to c4 returns False.\<close>

theorem pass_move_witness:
  "make_move row_major new_game ''a7'' ''a7'' = Inr (True, new_game\<lparr>current_turn := Red\<rparr>) \<and>
   is_in_check new_game Blue = Inr False \<and>
   make_move row_major new_game ''a7'' ''a-3'' = Inr (False, new_game) \<and>
   is_in_check (after_calls [(''a7'', ''b7''), (''a4'', ''a4''), (''a10'', ''a4''),
                             (''c4'', ''c4''), (''a4'', ''a2'')]) Red = Inr True \<and>
   make_move row_major
     (after_calls [(''a7'', ''b7''), (''a4'', ''a4''), (''a10'', ''a4''), (''c4'', ''c4''),
                   (''a4'', ''a2'')]) ''c4'' ''c4''
     = Inr (False, after_calls [(''a7'', ''b7''), (''a4'', ''a4''), (''a10'', ''a4''),
                                (''c4'', ''c4''), (''a4'', ''a2'')])"
proof -
  have w: "well_formed new_game" by code_simp
  have h: "game_state new_game = UNFINISHED" "translate_position ''a7'' = Inr (6, 0)"
    "translate_position ''a7'' = Inr (6, 0)" "cell_of (6, 0) = cell_of (6, 0)"
    "get_item (board new_game) (6, 0) = Inr (Some 11)"
    "owner (heap new_game ! 11) = current_turn new_game"
    by code_simp+
  have h': "game_state new_game = UNFINISHED" "translate_position ''a7'' = Inr (6, 0)"
    "translate_position ''a-3'' = Inr (- 4, 0)" "cell_of (- 4, 0) = cell_of (6, 0)"
    "get_item (board new_game) (6, 0) = Inr (Some 11)"
    "owner (heap new_game ! 11) = current_turn new_game"
    by code_simp+
  have c: "is_in_check new_game (current_turn new_game) = Inr False"
    "current_turn new_game = Blue" by code_simp+
  have d: "''a7'' \<noteq> ''a-3''" by simp
  define s where "s = after_calls [(''a7'', ''b7''), (''a4'', ''a4''), (''a10'', ''a4''),
                                   (''c4'', ''c4''), (''a4'', ''a2'')]"
  have "let s = after_calls [(''a7'', ''b7''), (''a4'', ''a4''), (''a10'', ''a4''),
                             (''c4'', ''c4''), (''a4'', ''a2'')]
        in well_formed s \<and> game_state s = UNFINISHED \<and>
           get_item (board s) (3, 2) = Inr (Some 28) \<and>
           owner (heap s ! 28) = current_turn s \<and> current_turn s = Red \<and>
           is_in_check s Red = Inr True"
    by code_simp
  then have k: "well_formed s" "game_state s = UNFINISHED"
    "get_item (board s) (3, 2) = Inr (Some 28)" "owner (heap s ! 28) = current_turn s"
    "current_turn s = Red" "is_in_check s Red = Inr True"
    unfolding Let_def s_def by blast+
  have t: "translate_position ''c4'' = Inr (3, 2)" by code_simp
  from pass_move [OF w h, of row_major] c
  have 1: "make_move row_major new_game ''a7'' ''a7''
             = Inr (True, new_game\<lparr>current_turn := Red\<rparr>)" by auto
  from pass_move [OF w h', of row_major] c d
  have 2: "make_move row_major new_game ''a7'' ''a-3'' = Inr (False, new_game)" by auto
  from pass_move [OF k(1,2) t t refl k(3,4), of row_major] k(5,6)
  have 3: "make_move row_major s ''c4'' ''c4'' = Inr (False, s)" by auto
  from 1 2 3 c k(6) show ?thesis unfolding s_def by simp
qed

section \<open>A finished game\<close>

text \<open>
  C8 (as stated): once the game is won every \<open>make_move\<close> call, for any arguments, returns
  False. A call whose origin is \<open>j1\<close> raises KeyError in a finished game, as in any other
  state, because the positions are translated before the game state is looked at.
\<close>

theorem finished_game_counterexample:
  "game_state (set_game_state new_game Blue) = BLUE_WON \<and>
   make_move row_major (set_game_state new_game Blue) ''j1'' ''a1''
     = Inl (KeyError, set_game_state new_game Blue)"
  by code_simp

text \<open>
  C8 (amended): once the game state is RED_WON or BLUE_WON, a \<open>make_move\<close> call whose two
  position strings translate returns False, and a call whose strings do not translate
  raises the translation's error, KeyError or ValueError, instead; in both cases the call
  leaves the board, the pieces, the piece collections, the turn and the game state as they
  were. So after any sequence of calls the state is the same, and no call has returned True.
\<close>

theorem finished_game_rejects:
  assumes "game_state s \<noteq> UNFINISHED"
  shows "make_move order s move_from move_to =
           (case translate_position move_to of
              Inl e \<Rightarrow> Inl (e, s)
            | Inr to_position \<Rightarrow>
                (case translate_position move_from of
                   Inl e \<Rightarrow> Inl (e, s)
                 | Inr from_position \<Rightarrow> Inr (False, s))) \<and>
         make_move order s move_from move_to
           \<in> {Inr (False, s), Inl (KeyError, s), Inl (ValueError, s)} \<and>
         snd (play order s calls) = s \<and>
         Inr True \<notin> set (fst (play order s calls))"
  using game_over_move [OF assms] game_over_results [OF assms] game_over_play [OF assms]
  by blast

theorem finished_game_rejects_witness:
  "game_state (set_game_state new_game Blue) \<noteq> UNFINISHED \<and>
   make_move row_major (set_game_state new_game Blue) ''e1'' ''e2''
     = Inr (False, set_game_state new_game Blue) \<and>
   make_move row_major (set_game_state new_game Blue) ''e1'' ''e''
     = Inl (ValueError, set_game_state new_game Blue) \<and>
   snd (play row_major (set_game_state new_game Blue)
          [(''e1'', ''e2''), (''e2'', ''e2''), (''k2'', ''e2''), (''e2'', ''e3'')])
     = set_game_state new_game Blue \<and>
   Inr True \<notin> set (fst (play row_major (set_game_state new_game Blue)
                          [(''e1'', ''e2''), (''e2'', ''e2''), (''k2'', ''e2''), (''e2'', ''e3'')]))"
proof -
  have g: "game_state (set_game_state new_game Blue) \<noteq> UNFINISHED" by code_simp
  have t: "translate_position ''e2'' = Inr (1, 4)" "translate_position ''e1'' = Inr (0, 4)"
    "translate_position ''e'' = Inl ValueError"
    by code_simp+
  note r = finished_game_rejects [OF g, of row_major "''e1''" "''e2''"
      "[(''e1'', ''e2''), (''e2'', ''e2''), (''k2'', ''e2''), (''e2'', ''e3'')]"]
  note r' = finished_game_rejects [OF g, of row_major "''e1''" "''e''" "[]"]
  from r [THEN conjunct1] t
  have 1: "make_move row_major (set_game_state new_game Blue) ''e1'' ''e2''
          = Inr (False, set_game_state new_game Blue)" by simp
  from r' [THEN conjunct1] t
  have 2: "make_move row_major (set_game_state new_game Blue) ''e1'' ''e''
          = Inl (ValueError, set_game_state new_game Blue)" by simp
  from 1 2 r [THEN conjunct2, THEN conjunct2] g show ?thesis by blast
qed

section \<open>The check test\<close>







section \<open>Checkmate\<close>

text \<open>
  C2: after a committed move the mover wins exactly when the opponent is in check and no
  simulated move of any piece of the opponent leaves the opponent out of check. In the
  following game blue brings a horse to d8, a cannon to the fortress corner f8, the general
  to e10 and a guard to the centre e9, while red's chariot takes the soldier on i7 and the
  pieces on i10 and h10. Red's last move, the chariot from h10 to g10, gives check along
  row 9, and the call sets the game state to RED_WON. But blue's guard 6 on (8, 4) may step
  to (9, 5) between the chariot and the general, and the simulation of that move leaves
  blue out of check. The loop of \<open>is_check_mate\<close> never tries the guard: simulating the
  cannon's jump onto its own guard 1 on (9, 3) removes that guard from the list being
  iterated and appends it again, so the list iterator steps over the piece that follows
  the cannon. The final list of blue's pieces shows guard 1 at its end.
\<close>

theorem checkmate_skips_a_piece:
  "(let r = play row_major new_game
              [(''c10'', ''d8''), (''i4'', ''h4''), (''b8'', ''f8''), (''i1'', ''i7''),
               (''e9'', ''e10''), (''i7'', ''i10''), (''f10'', ''e9''), (''i10'', ''h10''),
               (''a7'', ''a7''), (''h10'', ''g10'')];
        s = snd r
    in fst r = [Inr True, Inr True, Inr True, Inr True, Inr True, Inr True, Inr True,
                Inr True, Inr True, Inr True] \<and>
       game_state s = RED_WON \<and> current_turn s = Red \<and> well_formed s \<and>
       is_in_check s Blue = Inr True \<and>
       blue_pieces s = [0, 2, 3, 4, 5, 6, 10, 11, 12, 13, 14, 1] \<and>
       owner (heap s ! 6) = Blue \<and> location (heap s ! 6) = Some (8, 4) \<and>
       get_legal_moves (board s) (heap s) (get_opposition_positions s Blue) (heap s ! 6)
         = Inr {(9, 5), (8, 5), (7, 4), (8, 3)} \<and>
       map_sum id fst (leaves_in_check s (8, 4) (9, 5)) = Inr False)"
  by code_simp

section \<open>Properties of the soldiers' moves\<close>

text \<open>
  C3 (as stated): the forward step of a red soldier is row-decreasing and that of a blue
  soldier row-increasing. In the initial layout the red soldier on (3, 0) may go to (4, 0)
  and to (3, 1) and nowhere else, so its forward step increases the row; the blue soldier on
  (6, 0) may go to (5, 0) and to (6, 1), so its forward step decreases the row.
\<close>

theorem soldier_forward_counterexample:
  "pclass (heap new_game ! 27) = RedSoldier \<and> location (heap new_game ! 27) = Some (3, 0) \<and>
   get_legal_moves (board new_game) (heap new_game) (get_opposition_positions new_game Red)
     (heap new_game ! 27) = Inr {(4, 0), (3, 1)} \<and>
   pclass (heap new_game ! 11) = BlueSoldier \<and> location (heap new_game ! 11) = Some (6, 0) \<and>
   get_legal_moves (board new_game) (heap new_game) (get_opposition_positions new_game Blue)
     (heap new_game ! 11) = Inr {(5, 0), (6, 1)}"
  by code_simp

text \<open>
  C3 (amended): for every soldier on every board, the forward step produced by
  \<open>get_legal_moves\<close> is row-increasing for a red soldier and row-decreasing for a blue
  soldier: the spot one row ahead is a legal move exactly when the soldier and that spot are
  on the board and the spot is empty or holds an opposition piece, and the spot one row
  behind is never a legal move. The spots one column to the right and to the left are legal
  moves under the same condition.
\<close>

theorem soldier_forward_direction:
  "((row + 1, column) \<in> RedSoldier_legal_moves b opp (row, column) \<longleftrightarrow>
      on_board (row, column) \<and> on_board (row + 1, column) \<and>
      (at b (row + 1, column) = None \<or> (row + 1, column) \<in> opp)) \<and>
   (row - 1, column) \<notin> RedSoldier_legal_moves b opp (row, column) \<and>
   ((row - 1, column) \<in> BlueSoldier_legal_moves b opp (row, column) \<longleftrightarrow>
      on_board (row, column) \<and> on_board (row - 1, column) \<and>
      (at b (row - 1, column) = None \<or> (row - 1, column) \<in> opp)) \<and>
   (row + 1, column) \<notin> BlueSoldier_legal_moves b opp (row, column) \<and>
   ((row, column + 1) \<in> RedSoldier_legal_moves b opp (row, column) \<longleftrightarrow>
      on_board (row, column) \<and> on_board (row, column + 1) \<and>
      (at b (row, column + 1) = None \<or> (row, column + 1) \<in> opp)) \<and>
   ((row, column - 1) \<in> RedSoldier_legal_moves b opp (row, column) \<longleftrightarrow>
      on_board (row, column) \<and> on_board (row, column - 1) \<and>
      (at b (row, column - 1) = None \<or> (row, column - 1) \<in> opp)) \<and>
   ((row, column + 1) \<in> BlueSoldier_legal_moves b opp (row, column) \<longleftrightarrow>
      on_board (row, column) \<and> on_board (row, column + 1) \<and>
      (at b (row, column + 1) = None \<or> (row, column + 1) \<in> opp)) \<and>
   ((row, column - 1) \<in> BlueSoldier_legal_moves b opp (row, column) \<longleftrightarrow>
      on_board (row, column) \<and> on_board (row, column - 1) \<and>
      (at b (row, column - 1) = None \<or> (row, column - 1) \<in> opp))"
  by (simp add: RedSoldier_legal_moves_def BlueSoldier_legal_moves_def soldier_spot_iff Let_def)

section \<open>Malformed notation\<close>

text \<open>
  C10: \<open>make_move\<close> translates both position strings before any validity check and does not
  guard the translation. For the origin \<open>j1\<close>, whose column letter is outside a to i, the
  call raises KeyError, and for the origin \<open>axx\<close>, whose rank is not a number, it raises
  ValueError, in every state of the game (also a finished one), instead of returning False;
  the state is as it was.
\<close>

theorem make_move_translation_raises:
  "make_move order s ''j1'' ''a1'' = Inl (KeyError, s) \<and>
   make_move order s ''axx'' ''a1'' = Inl (ValueError, s)"
  by code_simp

section \<open>The cannon's diagonal jump\<close>

text \<open>
  C4: a cannon on a corner of a fortress may jump to the opposite corner exactly when the
  centre of that fortress holds a piece that is not a cannon. The code tests (0, 4) instead
  of the centre (1, 4) of the red fortress. Blue passes (a7 to a7) and red plays h1 to g3 and
  h3 to f3: the red cannon stands on the corner (2, 5), the centre (1, 4) holds the red
  general, and the opposite corner (0, 3) is not among the cannon's moves. After another
  pass, e2 to e1 and a pass, the centre is empty, the general stands on (0, 4), and the
  corner (0, 3) is among the cannon's moves.
\<close>

theorem cannon_red_fortress_diagonal:
  "(let s = after_calls [(''a7'', ''a7''), (''h1'', ''g3''), (''a7'', ''a7''), (''h3'', ''f3'')]
    in pclass (heap s ! 26) = Cannon \<and> location (heap s ! 26) = Some (2, 5) \<and>
       at (board s) (1, 4) = Some 16 \<and> ptype (heap s ! 16) = TGeneral \<and>
       get_legal_moves (board s) (heap s) (get_opposition_positions s Red) (heap s ! 26)
         = Inr {(2, 8), (2, 7)}) \<and>
   (let s = after_calls [(''a7'', ''a7''), (''h1'', ''g3''), (''a7'', ''a7''), (''h3'', ''f3''),
                         (''a7'', ''a7''), (''e2'', ''e1''), (''a7'', ''a7'')]
    in location (heap s ! 26) = Some (2, 5) \<and> at (board s) (1, 4) = None \<and>
       get_legal_moves (board s) (heap s) (get_opposition_positions s Red) (heap s ! 26)
         = Inr {(0, 3), (2, 8), (2, 7)})"
  by code_simp

text \<open>
  C5: \<open>get_legal_moves\<close> never contains a cell occupied by a friendly piece. In the second
  state above it is red's turn, the red cannon stands on (2, 5), and its moves contain
  (0, 3), which holds the red guard 17 and is not an opposition position; the call
  f3 to d1 is accepted and removes the guard from red's own pieces.
\<close>

theorem cannon_diagonal_friendly_piece:
  "(let s = after_calls [(''a7'', ''a7''), (''h1'', ''g3''), (''a7'', ''a7''), (''h3'', ''f3''),
                         (''a7'', ''a7''), (''e2'', ''e1''), (''a7'', ''a7'')]
    in current_turn s = Red \<and> game_state s = UNFINISHED \<and>
       pclass (heap s ! 26) = Cannon \<and> owner (heap s ! 26) = Red \<and>
       location (heap s ! 26) = Some (2, 5) \<and>
       at (board s) (0, 3) = Some 17 \<and> owner (heap s ! 17) = Red \<and>
       (0, 3) \<notin> get_opposition_positions s Red \<and>
       get_legal_moves (board s) (heap s) (get_opposition_positions s Red) (heap s ! 26)
         = Inr {(0, 3), (2, 8), (2, 7)} \<and>
       (case make_move row_major s ''f3'' ''d1'' of
          Inl e \<Rightarrow> False
        | Inr (result, s') \<Rightarrow> result \<and> 17 \<notin> set (red_pieces s') \<and> at (board s') (0, 3) = Some 26))"
  by code_simp

section \<open>The scenario of the first game of main\<close>

text \<open>
  C9 (as stated): from the initial layout, c1 to e3 returns False, a7 to b7 True, a4 to a5
  True, b3 to b6 False, and then a4 to a4, issued when red's general is not in check,
  returns True. After the four listed calls the cell a4 is empty (the soldier has gone to
  a5) and it is blue's turn: red's general is not in check, and a4 to a4 returns False.
\<close>

theorem first_game_counterexample:
  "is_in_check (after_calls
         [(''c1'', ''e3''), (''a7'', ''b7''), (''a4'', ''a5''), (''b3'', ''b6'')]) Red
     = Inr False \<and>
   fst (play row_major new_game
         [(''c1'', ''e3''), (''a7'', ''b7''), (''a4'', ''a5''), (''b3'', ''b6''), (''a4'', ''a4'')])
     = [Inr False, Inr True, Inr True, Inr False, Inr False]"
  by code_simp

text \<open>
  C9 (amended): the calls of \<open>main\<close> in full. From the initial layout c1 to e3 on blue's turn
  returns False, a7 to b7 returns True, a4 to a5 on red's turn returns True, b7 to b6
  returns True, b3 to b6 returns False, a1 to a4 and c7 to d7 return True; then it is red's
  turn, a4 holds the red chariot, red's general is not in check, and a4 to a4 returns True,
  passes the turn to blue and leaves the board grid unchanged. This holds for every
  iteration order of the sets.
\<close>

theorem first_game_of_main:
  "(let r = play order new_game
              [(''c1'', ''e3''), (''a7'', ''b7''), (''a4'', ''a5''), (''b7'', ''b6''),
               (''b3'', ''b6''), (''a1'', ''a4''), (''c7'', ''d7'')]
    in fst r = [Inr False, Inr True, Inr True, Inr True, Inr False, Inr True, Inr True] \<and>
       current_turn (snd r) = Red \<and> is_in_check (snd r) Red = Inr False \<and>
       (case make_move order (snd r) ''a4'' ''a4'' of
          Inl e \<Rightarrow> False
        | Inr (result, s') \<Rightarrow>
            result \<and> current_turn s' = Blue \<and> board s' = board (snd r) \<and>
            s' = change_turn (snd r)))"
  by code_simp

end
